theory Spec2Isabelle
  imports Complex_Main "HOL-Library.AList" "HOL-Library.Sublist" "HOL-Library.Log_Nat"
begin

section \<open>The monthly report job (supabase/functions/send-monthly-report/index.ts)\<close>

text \<open>
  A shallow embedding of the edge function \<^verbatim>\<open>handler\<close> and of \<^verbatim>\<open>sendMonthlyReport\<close>.
  The database client, the mail client and the clock are collaborators of the function:
  they appear as parameters (an environment of oracles, a time zone, the time value of
  \<^verbatim>\<open>new Date()\<close>). The built-ins of the language that the function calls (the \<^verbatim>\<open>Date\<close>
  arithmetic, \<^verbatim>\<open>parseFloat\<close>, \<^verbatim>\<open>toFixed\<close>, \<^verbatim>\<open>Map\<close>, \<^verbatim>\<open>Set\<close>,
  \<^verbatim>\<open>Array.prototype.sort\<close>) are modelled after ECMA-262.
\<close>

subsection \<open>Decimal rendering\<close>

definition digit_char :: "nat \<Rightarrow> char" where
  "digit_char n = ''0123456789'' ! (n mod 10)"

fun decimal :: "nat \<Rightarrow> string" where
  "decimal n = (if n < 10 then [digit_char n] else decimal (n div 10) @ [digit_char (n mod 10)])"

declare decimal.simps [simp del]

text \<open>\<^verbatim>\<open>String.prototype.padStart(k, "0")\<close> on the decimal digits of a number.\<close>

definition pad :: "nat \<Rightarrow> nat \<Rightarrow> string" where
  "pad k n = replicate (k - length (decimal n)) (CHR ''0'') @ decimal n"

subsection \<open>Dates (ECMA-262, 21.4.1)\<close>

text \<open>
  A time value is a number of milliseconds since 1970-01-01T00:00:00Z. A \<^verbatim>\<open>Date\<close> object
  holds a time value or is invalid (\<open>None\<close>). Days are numbered from the epoch; months are
  indices 0..11 as in JavaScript.
\<close>

type_synonym js_date = "int option"

definition msPerDay :: int where
  "msPerDay = 86400000"

definition Day :: "int \<Rightarrow> int" where
  "Day t = t div msPerDay"

definition DaysInYear :: "int \<Rightarrow> int" where
  "DaysInYear y =
     (if y mod 4 \<noteq> 0 then 365
      else if y mod 100 \<noteq> 0 then 366
      else if y mod 400 \<noteq> 0 then 365
      else 366)"

definition DayFromYear :: "int \<Rightarrow> int" where
  "DayFromYear y = 365 * (y - 1970) + (y - 1969) div 4 - (y - 1901) div 100 + (y - 1601) div 400"

definition InLeapYear :: "int \<Rightarrow> int" where
  "InLeapYear y = (if DaysInYear y = 366 then 1 else 0)"

lemma div_succ:
  fixes a k :: int
  assumes k: "1 < k"
  shows "(a + 1) div k = a div k + (if (a + 1) mod k = 0 then 1 else 0)"
proof (cases "a mod k = k - 1")
  case True
  have "a + 1 = k * (a div k) + (a mod k + 1)" by simp
  also have "a mod k + 1 = k" using True by simp
  finally have e: "a + 1 = k * (a div k + 1) + 0" by (simp add: algebra_simps)
  have "(a + 1) div k = a div k + 1"
    using e by (rule int_div_pos_eq) (use k in simp_all)
  moreover have "(a + 1) mod k = 0"
    using e by (rule int_mod_pos_eq) (use k in simp_all)
  ultimately show ?thesis by simp
next
  case False
  have b: "0 \<le> a mod k" "a mod k < k" using k by simp_all
  then have lt: "a mod k + 1 < k" using False by linarith
  have e: "a + 1 = k * (a div k) + (a mod k + 1)" by simp
  have "(a + 1) div k = a div k"
    using e _ lt by (rule int_div_pos_eq) (use b in simp)
  moreover have "(a + 1) mod k = a mod k + 1"
    using e _ lt by (rule int_mod_pos_eq) (use b in simp)
  ultimately show ?thesis using b by simp
qed

lemma leap_div4: "(y - 1968) div 4 = (y - 1969) div 4 + (if y mod 4 = 0 then 1 else 0)" for y :: int
proof -
  have "(y - 1968) mod 4 = y mod 4" using mod_mult_self1 [of y "- 492" 4] by simp
  then show ?thesis using div_succ [of 4 "y - 1969"] by simp
qed

lemma leap_div100: "(y - 1900) div 100 = (y - 1901) div 100 + (if y mod 100 = 0 then 1 else 0)" for y :: int
proof -
  have "(y - 1900) mod 100 = y mod 100" using mod_mult_self1 [of y "- 19" 100] by simp
  then show ?thesis using div_succ [of 100 "y - 1901"] by simp
qed

lemma leap_div400: "(y - 1600) div 400 = (y - 1601) div 400 + (if y mod 400 = 0 then 1 else 0)" for y :: int
proof -
  have "(y - 1600) mod 400 = y mod 400" using mod_mult_self1 [of y "- 4" 400] by simp
  then show ?thesis using div_succ [of 400 "y - 1601"] by simp
qed

lemma leap_mod: "y mod 400 = 0 \<Longrightarrow> y mod 100 = 0" "y mod 100 = 0 \<Longrightarrow> y mod 4 = 0" for y :: int
proof -
  show "y mod 400 = 0 \<Longrightarrow> y mod 100 = 0"
    using dvd_trans [of 100 400 y] by (simp add: mod_eq_0_iff_dvd)
  show "y mod 100 = 0 \<Longrightarrow> y mod 4 = 0"
    using dvd_trans [of 4 100 y] by (simp add: mod_eq_0_iff_dvd)
qed

lemma DayFromYear_step: "DayFromYear (y + 1) = DayFromYear y + DaysInYear y"
proof -
  have "DayFromYear (y + 1) =
      365 * (y - 1969) + (y - 1968) div 4 - (y - 1900) div 100 + (y - 1600) div 400"
    by (simp add: DayFromYear_def)
  also have "\<dots> = DayFromYear y + DaysInYear y"
    unfolding leap_div4 leap_div100 leap_div400 DayFromYear_def DaysInYear_def
    using leap_mod [of y] by (simp split: if_splits)
  finally show ?thesis .
qed

lemma DaysInYear_pos: "365 \<le> DaysInYear y"
  by (simp add: DaysInYear_def)

text \<open>
  \<^verbatim>\<open>YearFromTime\<close> is the largest year whose first day is not after the given day. The
  search starts from a year that is not after it and walks up.
\<close>

function year_search :: "int \<Rightarrow> int \<Rightarrow> int" where
  "year_search d y = (if DayFromYear (y + 1) \<le> d then year_search d (y + 1) else y)"
  by pat_completeness auto
termination
proof (relation "measure (\<lambda>(d, y). nat (d - DayFromYear y))")
  show "wf (measure (\<lambda>(d, y). nat (d - DayFromYear y)))"
    by simp
next
  fix d y :: int
  assume "DayFromYear (y + 1) \<le> d"
  then show "((d, y + 1), (d, y)) \<in> measure (\<lambda>(d, y). nat (d - DayFromYear y))"
    using DaysInYear_pos [of y] by (simp add: DayFromYear_step)
qed

declare year_search.simps [simp del]

definition YearFromDay :: "int \<Rightarrow> int" where
  "YearFromDay d = year_search d (1970 + (if 0 \<le> d then d div 366 else d div 365))"

definition YearFromTime :: "int \<Rightarrow> int" where
  "YearFromTime t = YearFromDay (Day t)"

definition DayWithinYear :: "int \<Rightarrow> int" where
  "DayWithinYear t = Day t - DayFromYear (YearFromTime t)"

text \<open>The day within the year on which month \<open>m\<close> (0..11) starts, \<open>l\<close> being 1 in a leap year.\<close>

definition month_start :: "int \<Rightarrow> int \<Rightarrow> int" where
  "month_start l m =
     (if m = 0 then 0 else if m = 1 then 31 else if m = 2 then 59 + l
      else if m = 3 then 90 + l else if m = 4 then 120 + l else if m = 5 then 151 + l
      else if m = 6 then 181 + l else if m = 7 then 212 + l else if m = 8 then 243 + l
      else if m = 9 then 273 + l else if m = 10 then 304 + l else 334 + l)"

definition MonthFromTime :: "int \<Rightarrow> int" where
  "MonthFromTime t =
     (let dwy = DayWithinYear t; l = InLeapYear (YearFromTime t) in
      if dwy < 31 then 0 else if dwy < 59 + l then 1 else if dwy < 90 + l then 2
      else if dwy < 120 + l then 3 else if dwy < 151 + l then 4 else if dwy < 181 + l then 5
      else if dwy < 212 + l then 6 else if dwy < 243 + l then 7 else if dwy < 273 + l then 8
      else if dwy < 304 + l then 9 else if dwy < 334 + l then 10 else 11)"

definition DateFromTime :: "int \<Rightarrow> int" where
  "DateFromTime t =
     DayWithinYear t - month_start (InLeapYear (YearFromTime t)) (MonthFromTime t) + 1"

text \<open>
  \<^verbatim>\<open>MakeDay(year, month, date)\<close>: a month index outside 0..11 carries into the year, and
  the date counts on from the first of the month, so date 0 is the day before it.
\<close>

definition MakeDay :: "int \<Rightarrow> int \<Rightarrow> int \<Rightarrow> int" where
  "MakeDay year month date =
     (let ym = year + month div 12; mn = month mod 12
      in DayFromYear ym + month_start (InLeapYear ym) mn + date - 1)"

definition MakeDate :: "int \<Rightarrow> int \<Rightarrow> int" where
  "MakeDate day time = day * msPerDay + time"

definition TimeClip :: "int \<Rightarrow> js_date" where
  "TimeClip t = (if \<bar>t\<bar> > 8640000000000000 then None else Some t)"

text \<open>
  The time zone of the process: \<open>tz t isUTC\<close> is the offset of local time from UTC in
  milliseconds (\<^verbatim>\<open>LocalTZA\<close>), at the UTC time value \<open>t\<close> when \<open>isUTC\<close> and at the
  local time value \<open>t\<close> otherwise. It is a parameter of the model.
\<close>

type_synonym timezone = "int \<Rightarrow> bool \<Rightarrow> int"

definition fixed_zone :: "int \<Rightarrow> timezone" where
  "fixed_zone minutes = (\<lambda>t isUTC. minutes * 60000)"

definition LocalTime :: "timezone \<Rightarrow> int \<Rightarrow> int" where
  "LocalTime tz t = t + tz t True"

definition UTC :: "timezone \<Rightarrow> int \<Rightarrow> int" where
  "UTC tz t = t - tz t False"

definition getFullYear :: "timezone \<Rightarrow> int \<Rightarrow> int" where
  "getFullYear tz t = YearFromTime (LocalTime tz t)"

definition getMonth :: "timezone \<Rightarrow> int \<Rightarrow> int" where
  "getMonth tz t = MonthFromTime (LocalTime tz t)"

text \<open>
  \<^verbatim>\<open>new Date(year, monthIndex, day)\<close>: the arguments are read in local time, a year
  0..99 means 1900..1999, and the result is converted to UTC.
\<close>

definition new_Date :: "timezone \<Rightarrow> int \<Rightarrow> int \<Rightarrow> int \<Rightarrow> js_date" where
  "new_Date tz y m dt =
     (let yr = (if 0 \<le> y \<and> y \<le> 99 then 1900 + y else y)
      in TimeClip (UTC tz (MakeDate (MakeDay yr m dt) 0)))"

subsection \<open>Thrown values\<close>

text \<open>
  A value thrown or returned as an error. The handler reads its \<^verbatim>\<open>message\<close> only,
  which is undefined (\<open>None\<close>) when the value has no such property: any value can be
  thrown.
\<close>

datatype exn = Exn (message: "string option")

text \<open>
  \<^verbatim>\<open>d.toISOString().split("T")[0]\<close>: the date part of the UTC rendering. An invalid
  date throws a RangeError; years outside 0..9999 are written with a sign and six digits.
\<close>

definition iso_year :: "int \<Rightarrow> string" where
  "iso_year y =
     (if 0 \<le> y \<and> y \<le> 9999 then pad 4 (nat y)
      else (if y < 0 then ''-'' else ''+'') @ pad 6 (nat \<bar>y\<bar>))"

definition toISOString_date :: "js_date \<Rightarrow> exn + string" where
  "toISOString_date d =
     (case d of
        None \<Rightarrow> Inl (Exn (Some ''Invalid time value''))
      | Some t \<Rightarrow>
          Inr (iso_year (YearFromTime t) @ ''-'' @ pad 2 (nat (MonthFromTime t + 1)) @ ''-'' @
               pad 2 (nat (DateFromTime t))))"

text \<open>Lines 45-47 of the handler: the two \<^verbatim>\<open>Date\<close> objects of the reporting window.\<close>

definition firstDayLastMonth :: "timezone \<Rightarrow> int \<Rightarrow> js_date" where
  "firstDayLastMonth tz now = new_Date tz (getFullYear tz now) (getMonth tz now - 1) 1"

definition lastDayLastMonth :: "timezone \<Rightarrow> int \<Rightarrow> js_date" where
  "lastDayLastMonth tz now = new_Date tz (getFullYear tz now) (getMonth tz now) 0"

subsection \<open>Numbers\<close>

text \<open>
  A JavaScript number is NaN, an infinity or a finite double, here its rational value (the
  two zeros are one value: they add alike and both are falsy). A string is the list of the
  bytes of its UTF-8 form.

  \<open>double\<close> is the rounding of every arithmetic operation and of every numeric literal:
  the nearest double, a tie going to the even significand. A double has 53 significant
  bits; below \<open>2^-1022\<close> (the subnormal numbers) the spacing stays \<open>2^-1074\<close>, and a
  result that rounds to \<open>2^1024\<close> or more is an infinity. \<open>fl\<close> is the same rounding
  without the two limits of the exponent; the two agree from \<open>2^-1022\<close> up to the
  overflow (lemma \<open>double_fl\<close> below), which is where the quotient and the product of the
  completion rate lie (lemma \<open>rate_doubles\<close>).
\<close>

datatype number = NaN | PosInf | NegInf | Fin rat

definition round_even :: "rat \<Rightarrow> int" where
  "round_even q =
     (let r = \<lfloor>q\<rfloor>; f = q - of_int r
      in if f < 1 / 2 then r else if 1 / 2 < f then r + 1 else if even r then r else r + 1)"

text \<open>The binary exponent of a positive rational: the integer part of its logarithm to base 2.\<close>

definition binade :: "rat \<Rightarrow> int" where
  "binade x =
     (let k = bitlen (fst (quotient_of x)) - bitlen (snd (quotient_of x))
      in if 2 powi k \<le> x then k else k - 1)"

definition fl :: "rat \<Rightarrow> rat" where
  "fl x =
     (if x = 0 then 0
      else sgn x * of_int (round_even (\<bar>x\<bar> / 2 powi (binade \<bar>x\<bar> - 52))) * 2 powi (binade \<bar>x\<bar> - 52))"

definition double :: "rat \<Rightarrow> number" where
  "double x =
     (if x = 0 then Fin 0
      else
        let e = max (binade \<bar>x\<bar> - 52) (- 1074);
            v = of_int (round_even (\<bar>x\<bar> / 2 powi e)) * 2 powi e
        in if of_int (2 ^ 1024) \<le> v then (if x < 0 then NegInf else PosInf) else Fin (sgn x * v))"

text \<open>\<^verbatim>\<open>a + b\<close> on numbers: the exact sum of two finite values, rounded.\<close>

fun add_number :: "number \<Rightarrow> number \<Rightarrow> number" where
  "add_number (Fin a) (Fin b) = double (a + b)"
| "add_number NaN _ = NaN"
| "add_number _ NaN = NaN"
| "add_number PosInf NegInf = NaN"
| "add_number NegInf PosInf = NaN"
| "add_number PosInf _ = PosInf"
| "add_number _ PosInf = PosInf"
| "add_number NegInf _ = NegInf"
| "add_number _ NegInf = NegInf"

text \<open>\<^verbatim>\<open>x || 0\<close> on a number: NaN and zero are falsy.\<close>

definition or_zero :: "number \<Rightarrow> number" where
  "or_zero x = (if x = NaN \<or> x = Fin 0 then Fin 0 else x)"

text \<open>
  \<^verbatim>\<open>parseFloat\<close>: leading white space is skipped, then the longest prefix that is a
  decimal literal (sign, \<^verbatim>\<open>Infinity\<close> or digits with an optional fraction and an
  optional exponent) is read and rounded to a double; NaN when there is no such prefix.

  The white space is that of \<^verbatim>\<open>StrWhiteSpaceChar\<close>: TAB, LF, VT, FF, CR, SP, U+00A0,
  U+1680, U+2000 to U+200A, U+2028, U+2029, U+202F, U+205F, U+3000 and U+FEFF, each in
  its UTF-8 form.
\<close>

definition StrWhiteSpaceChar :: "string list" where
  "StrWhiteSpaceChar =
     [[CHR 0x09], [CHR 0x0A], [CHR 0x0B], [CHR 0x0C], [CHR 0x0D], [CHR 0x20],
      [CHR 0xC2, CHR 0xA0],
      [CHR 0xE1, CHR 0x9A, CHR 0x80],
      [CHR 0xE2, CHR 0x80, CHR 0x80], [CHR 0xE2, CHR 0x80, CHR 0x81],
      [CHR 0xE2, CHR 0x80, CHR 0x82], [CHR 0xE2, CHR 0x80, CHR 0x83],
      [CHR 0xE2, CHR 0x80, CHR 0x84], [CHR 0xE2, CHR 0x80, CHR 0x85],
      [CHR 0xE2, CHR 0x80, CHR 0x86], [CHR 0xE2, CHR 0x80, CHR 0x87],
      [CHR 0xE2, CHR 0x80, CHR 0x88], [CHR 0xE2, CHR 0x80, CHR 0x89],
      [CHR 0xE2, CHR 0x80, CHR 0x8A],
      [CHR 0xE2, CHR 0x80, CHR 0xA8], [CHR 0xE2, CHR 0x80, CHR 0xA9],
      [CHR 0xE2, CHR 0x80, CHR 0xAF],
      [CHR 0xE2, CHR 0x81, CHR 0x9F],
      [CHR 0xE3, CHR 0x80, CHR 0x80],
      [CHR 0xEF, CHR 0xBB, CHR 0xBF]]"

text \<open>
  \<^verbatim>\<open>TrimString(s, start)\<close>: one white-space character is dropped from the head as
  long as there is one. The first argument bounds the number of steps; the length of the
  string is enough, as every step drops a byte at least.
\<close>

primrec trim_steps :: "nat \<Rightarrow> string \<Rightarrow> string" where
  "trim_steps 0 s = s"
| "trim_steps (Suc n) s =
     (case filter (\<lambda>p. prefix p s) StrWhiteSpaceChar of
        [] \<Rightarrow> s
      | p # ps \<Rightarrow> trim_steps n (drop (length p) s))"

definition TrimStart :: "string \<Rightarrow> string" where
  "TrimStart s = trim_steps (length s) s"

definition is_digit :: "char \<Rightarrow> bool" where
  "is_digit c = (c \<in> set ''0123456789'')"

definition digits_value :: "string \<Rightarrow> nat" where
  "digits_value ds = foldl (\<lambda>n c. 10 * n + (of_char c - 48)) 0 ds"

definition exponent_part :: "string \<Rightarrow> int" where
  "exponent_part r =
     (case r of
        [] \<Rightarrow> 0
      | c # r1 \<Rightarrow>
          if c = CHR ''e'' \<or> c = CHR ''E'' then
            (case r1 of
               [] \<Rightarrow> 0
             | s # r2 \<Rightarrow>
                 if s = CHR ''-'' then - int (digits_value (takeWhile is_digit r2))
                 else if s = CHR ''+'' then int (digits_value (takeWhile is_digit r2))
                 else int (digits_value (takeWhile is_digit r1)))
          else 0)"

definition scale10 :: "rat \<Rightarrow> int \<Rightarrow> rat" where
  "scale10 m e = (if 0 \<le> e then m * 10 ^ nat e else m / 10 ^ nat (- e))"

definition parseFloat :: "string \<Rightarrow> number" where
  "parseFloat s =
     (let t = TrimStart s;
          neg = (take 1 t = ''-'');
          u = (if take 1 t = ''-'' \<or> take 1 t = ''+'' then drop 1 t else t)
      in if prefix ''Infinity'' u then (if neg then NegInf else PosInf)
         else
           let ip = takeWhile is_digit u;
               r1 = dropWhile is_digit u;
               dot = (take 1 r1 = ''.'');
               fp = (if dot then takeWhile is_digit (drop 1 r1) else []);
               r2 = (if dot then dropWhile is_digit (drop 1 r1) else r1)
           in if ip = [] \<and> fp = [] then NaN
              else
                let m = of_nat (digits_value ip) + of_nat (digits_value fp) / 10 ^ length fp;
                    v = scale10 m (exponent_part r2)
                in double (if neg then - v else v))"

subsection \<open>Rows\<close>

text \<open>
  The rows the two queries select. A column that can be null is an option. The price
  column arrives as a JSON value: null, a number (the decimal of its literal) or a string.
\<close>

datatype price = PriceNull | PriceNumber rat | PriceString string

record business =
  business_id :: string
  business_name :: string
  business_email :: "string option"
  owner_id :: "string option"
  business_currency :: "string option"

record service =
  service_name :: "string option"

record appointment =
  appointment_id :: string
  status :: string
  final_price :: price
  service_id :: "string option"
  customer_id :: "string option"
  services :: "service option"

record MonthlyReportData =
  businessId :: string
  businessName :: string
  ownerEmail :: string
  totalAppointments :: nat
  completedAppointments :: nat
  cancelledAppointments :: nat
  totalRevenue :: number
  newCustomers :: nat
  topServices :: "(string \<times> nat) list"
  currency :: string

subsection \<open>Metrics (lines 64-86)\<close>

text \<open>
  \<^verbatim>\<open>appointments\<close> is the data of the query result: \<open>None\<close> when it is null. Each
  function below is the right-hand side of the constant of the same name in the handler.
\<close>

definition totalAppointments_of :: "appointment list option \<Rightarrow> nat" where
  "totalAppointments_of appointments = (case appointments of None \<Rightarrow> 0 | Some xs \<Rightarrow> length xs)"

definition completedAppointments_of :: "appointment list option \<Rightarrow> nat" where
  "completedAppointments_of appointments =
     (case appointments of None \<Rightarrow> 0 | Some xs \<Rightarrow> length (filter (\<lambda>a. status a = ''completed'') xs))"

definition cancelledAppointments_of :: "appointment list option \<Rightarrow> nat" where
  "cancelledAppointments_of appointments =
     (case appointments of None \<Rightarrow> 0 | Some xs \<Rightarrow> length (filter (\<lambda>a. status a = ''cancelled'') xs))"

text \<open>
  \<^verbatim>\<open>parseFloat(a.final_price?.toString() || "0")\<close>. A null price and an empty string
  read as \<^verbatim>\<open>"0"\<close>. A JSON number is the double nearest to its literal; the text of a
  number is not empty and reads back as the number itself.
\<close>

fun price_number :: "price \<Rightarrow> number" where
  "price_number PriceNull = parseFloat ''0''"
| "price_number (PriceNumber q) = double q"
| "price_number (PriceString s) = parseFloat (if s = [] then ''0'' else s)"

definition totalRevenue_of :: "appointment list option \<Rightarrow> number" where
  "totalRevenue_of appointments =
     (case appointments of
        None \<Rightarrow> Fin 0
      | Some xs \<Rightarrow>
          or_zero (foldl (\<lambda>sum a. add_number sum (price_number (final_price a))) (Fin 0)
                     (filter (\<lambda>a. status a = ''completed'') xs)))"

text \<open>\<^verbatim>\<open>Boolean(v)\<close> on a nullable string: null and the empty string are falsy.\<close>

definition truthy :: "string option \<Rightarrow> bool" where
  "truthy v = (case v of None \<Rightarrow> False | Some s \<Rightarrow> s \<noteq> [])"

definition uniqueCustomers_of :: "appointment list option \<Rightarrow> string option set" where
  "uniqueCustomers_of appointments =
     (case appointments of None \<Rightarrow> {} | Some xs \<Rightarrow> set (filter truthy (map customer_id xs)))"

definition newCustomers_of :: "appointment list option \<Rightarrow> nat" where
  "newCustomers_of appointments = card (uniqueCustomers_of appointments)"

text \<open>
  A \<^verbatim>\<open>Map\<close> keeps its entries in insertion order, and setting a key that is present
  keeps the key's place: an association list with distinct keys.
\<close>

definition Map_get :: "('k \<times> 'v) list \<Rightarrow> 'k \<Rightarrow> 'v option" where
  "Map_get m k = map_of m k"

definition Map_set :: "('k \<times> 'v) list \<Rightarrow> 'k \<Rightarrow> 'v \<Rightarrow> ('k \<times> 'v) list" where
  "Map_set m k v = AList.update k v m"

text \<open>\<^verbatim>\<open>a.services?.name\<close>: undefined when the joined row or its name is null.\<close>

definition services_name :: "appointment \<Rightarrow> string option" where
  "services_name a = (case services a of None \<Rightarrow> None | Some s \<Rightarrow> service_name s)"

definition count_service :: "(string \<times> nat) list \<Rightarrow> appointment \<Rightarrow> (string \<times> nat) list" where
  "count_service serviceCounts a =
     (case services_name a of
        None \<Rightarrow> serviceCounts
      | Some n \<Rightarrow>
          if n = [] then serviceCounts
          else Map_set serviceCounts n
                 ((case Map_get serviceCounts n of None \<Rightarrow> 0 | Some c \<Rightarrow> c) + 1))"

definition serviceCounts_of :: "appointment list option \<Rightarrow> (string \<times> nat) list" where
  "serviceCounts_of appointments =
     (case appointments of None \<Rightarrow> [] | Some xs \<Rightarrow> foldl count_service [] xs)"

text \<open>
  \<^verbatim>\<open>Array.prototype.sort(cmp)\<close> is stable: elements that compare equal keep their order.
  Modelled as an insertion sort that puts an element before the first one it is not after.
\<close>

fun insert_by :: "('a \<Rightarrow> 'a \<Rightarrow> int) \<Rightarrow> 'a \<Rightarrow> 'a list \<Rightarrow> 'a list" where
  "insert_by cmp x [] = [x]"
| "insert_by cmp x (y # ys) = (if cmp x y \<le> 0 then x # y # ys else y # insert_by cmp x ys)"

definition Array_sort :: "('a \<Rightarrow> 'a \<Rightarrow> int) \<Rightarrow> 'a list \<Rightarrow> 'a list" where
  "Array_sort cmp xs = foldr (insert_by cmp) xs []"

text \<open>The comparator \<^verbatim>\<open>(a, b) => b.count - a.count\<close> on entries (name, count).\<close>

definition by_count_desc :: "string \<times> nat \<Rightarrow> string \<times> nat \<Rightarrow> int" where
  "by_count_desc a b = int (snd b) - int (snd a)"

definition topServices_of :: "appointment list option \<Rightarrow> (string \<times> nat) list" where
  "topServices_of appointments = take 5 (Array_sort by_count_desc (serviceCounts_of appointments))"

text \<open>
  Lines 88-99: the report of one business. \<^verbatim>\<open>business.email || ""\<close> and
  \<^verbatim>\<open>business.currency || "NGN"\<close> take the right-hand side when the column is null or
  the empty string.
\<close>

definition or_else :: "string option \<Rightarrow> string \<Rightarrow> string" where
  "or_else v d = (case v of None \<Rightarrow> d | Some s \<Rightarrow> if s = [] then d else s)"

definition reportData_of :: "business \<Rightarrow> appointment list option \<Rightarrow> MonthlyReportData" where
  "reportData_of b appointments =
     \<lparr> businessId = business_id b,
       businessName = business_name b,
       ownerEmail = or_else (business_email b) [],
       totalAppointments = totalAppointments_of appointments,
       completedAppointments = completedAppointments_of appointments,
       cancelledAppointments = cancelledAppointments_of appointments,
       totalRevenue = totalRevenue_of appointments,
       newCustomers = newCustomers_of appointments,
       topServices = topServices_of appointments,
       currency = or_else (business_currency b) ''NGN'' \<rparr>"

subsection \<open>sendMonthlyReport (lines 124-231)\<close>

text \<open>
  \<^verbatim>\<open>Number.prototype.toFixed(f)\<close> on a finite value below \<open>10^21\<close>: the integer \<open>n\<close>
  with \<open>n / 10^f\<close> nearest to the value (the larger one of two), written with \<open>f\<close>
  digits after the point. From \<open>10^21\<close> on JavaScript writes an exponent; the rate below
  never gets there. The two counts of the rate are array lengths, which doubles hold
  exactly.
\<close>

definition toFixed :: "nat \<Rightarrow> rat \<Rightarrow> string" where
  "toFixed f x =
     (let s = (if x < 0 then ''-'' else []);
          n = nat \<lfloor>\<bar>x\<bar> * 10 ^ f + 1 / 2\<rfloor>;
          m = decimal n;
          z = replicate (f + 1 - length m) (CHR ''0'') @ m;
          k = length z
      in if f = 0 then s @ m else s @ take (k - f) z @ ''.'' @ drop (k - f) z)"

definition completionRate :: "MonthlyReportData \<Rightarrow> string" where
  "completionRate data =
     (if totalAppointments data > 0
      then toFixed 1 (fl (fl (of_nat (completedAppointments data) / of_nat (totalAppointments data)) * 100))
      else ''0'')"

text \<open>
  \<^verbatim>\<open>startDate.toLocaleDateString("en-US", { month: "long", year: "numeric" })\<close>: the month
  and the year of the date in local time.
\<close>

definition month_name :: "int \<Rightarrow> string" where
  "month_name m =
     [''January'', ''February'', ''March'', ''April'', ''May'', ''June'', ''July'', ''August'',
      ''September'', ''October'', ''November'', ''December''] ! nat m"

definition year_text :: "int \<Rightarrow> string" where
  "year_text y = (if y < 0 then ''-'' else []) @ decimal (nat \<bar>y\<bar>)"

definition monthYear :: "timezone \<Rightarrow> js_date \<Rightarrow> string" where
  "monthYear tz startDate =
     (case startDate of
        None \<Rightarrow> ''Invalid Date''
      | Some t \<Rightarrow>
          month_name (MonthFromTime (LocalTime tz t)) @ '' '' @
          year_text (YearFromTime (LocalTime tz t)))"

text \<open>
  The message handed to the mail client. Of the HTML only the interpolated values are
  kept, in the order of the template; the markup around them is constant. The revenue
  figures are kept as numbers (their \<^verbatim>\<open>toLocaleString\<close> rendering depends on the
  locale of the process).
\<close>

record html =
  html_monthYear :: string
  html_businessName :: string
  html_totalAppointments :: nat
  html_currency :: string
  html_totalRevenue :: number
  html_completedAppointments :: nat
  html_completionRate :: string
  html_newCustomers :: nat
  html_topServices :: "(string \<times> nat) list"
  html_cancelledAppointments :: nat

record email =
  email_from :: string
  email_to :: "string list"
  email_subject :: string
  email_html :: html

text \<open>The bytes that open the subject literal in the source file (line 228).\<close>

definition chart_emoji :: string where
  "chart_emoji = [CHR 0xEF, CHR 0xA3, CHR 0xBF, CHR 0xC3, CHR 0xBC, CHR 0xC3, CHR 0xAC, CHR 0xC3, CHR 0xA4]"

definition report_email :: "timezone \<Rightarrow> MonthlyReportData \<Rightarrow> js_date \<Rightarrow> email" where
  "report_email tz data startDate =
     \<lparr> email_from = ''Boji <admin@bojiapp.me>'',
       email_to = [ownerEmail data],
       email_subject = chart_emoji @ '' Your Monthly Report - '' @ monthYear tz startDate,
       email_html =
         \<lparr> html_monthYear = monthYear tz startDate,
           html_businessName = businessName data,
           html_totalAppointments = totalAppointments data,
           html_currency = currency data,
           html_totalRevenue = totalRevenue data,
           html_completedAppointments = completedAppointments data,
           html_completionRate = completionRate data,
           html_newCustomers = newCustomers data,
           html_topServices = topServices data,
           html_cancelledAppointments = cancelledAppointments data \<rparr> \<rparr>"

subsection \<open>The collaborators\<close>

text \<open>
  An awaited query either rejects (the \<^verbatim>\<open>await\<close> throws) or resolves to a pair
  \<^verbatim>\<open>{ data, error }\<close>, either of which can be null.
\<close>

datatype 'a query_result = Rejected exn | Resolved "'a option" "exn option"

text \<open>
  The database and the mail service answer as they please and may change with every
  call: each call takes the state \<open>'w\<close> of the world and returns the next one.
  \<^verbatim>\<open>createClient\<close> throws or not; \<^verbatim>\<open>emails_send\<close> is
  \<^verbatim>\<open>await resend.emails.send(...)\<close>, whose value the function ignores, so only a
  rejection (\<open>Some\<close>) is seen.
\<close>

record 'w env =
  createClient :: "exn option"
  select_businesses :: "'w \<Rightarrow> business list query_result \<times> 'w"
  select_appointments :: "string \<Rightarrow> string \<Rightarrow> string \<Rightarrow> 'w \<Rightarrow> appointment list query_result \<times> 'w"
  emails_send :: "email \<Rightarrow> 'w \<Rightarrow> exn option \<times> 'w"

text \<open>What a run does to the outside, in order.\<close>

datatype event =
    Console_log string
  | Console_error string exn
  | Select_businesses
  | Select_appointments string string string
  | Emails_send email

subsection \<open>The handler (lines 27-122)\<close>

text \<open>
  The body of the inner \<^verbatim>\<open>try\<close> for one business: the exception that leaves it, if
  any, the events, and the next state of the world. The two date strings are computed
  while the query is built, before it is sent.
\<close>

definition business_body ::
  "'w env \<Rightarrow> timezone \<Rightarrow> js_date \<Rightarrow> js_date \<Rightarrow> business \<Rightarrow> 'w \<Rightarrow> (exn option \<times> event list) \<times> 'w" where
  "business_body env tz firstDay lastDay b w =
     (case toISOString_date firstDay of
        Inl e \<Rightarrow> ((Some e, []), w)
      | Inr gte \<Rightarrow>
     (case toISOString_date lastDay of
        Inl e \<Rightarrow> ((Some e, []), w)
      | Inr lte \<Rightarrow>
     (case select_appointments env (business_id b) gte lte w of
        (Rejected e, w1) \<Rightarrow> ((Some e, [Select_appointments (business_id b) gte lte]), w1)
      | (Resolved appointments (Some apptError), w1) \<Rightarrow>
          ((None, [Select_appointments (business_id b) gte lte,
                   Console_error (''Error fetching appointments for business '' @ business_id b @ '':'')
                     apptError]), w1)
      | (Resolved appointments None, w1) \<Rightarrow>
          (let reportData = reportData_of b appointments in
           if totalAppointments reportData > 0 \<and> ownerEmail reportData \<noteq> [] then
             (case emails_send env (report_email tz reportData firstDay) w1 of
                (Some e, w2) \<Rightarrow>
                  ((Some e, [Select_appointments (business_id b) gte lte,
                             Emails_send (report_email tz reportData firstDay)]), w2)
              | (None, w2) \<Rightarrow>
                  ((None, [Select_appointments (business_id b) gte lte,
                           Emails_send (report_email tz reportData firstDay),
                           Console_log (''Sent monthly report to '' @ ownerEmail reportData @
                                        '' for '' @ businessName reportData)]), w2))
           else ((None, [Select_appointments (business_id b) gte lte]), w1)))))"

text \<open>One iteration of the loop: the body and its \<^verbatim>\<open>catch\<close>.\<close>

definition process_business ::
  "'w env \<Rightarrow> timezone \<Rightarrow> js_date \<Rightarrow> js_date \<Rightarrow> business \<Rightarrow> 'w \<Rightarrow> event list \<times> 'w" where
  "process_business env tz firstDay lastDay b w =
     (case business_body env tz firstDay lastDay b w of
        ((Some e, evs), w1) \<Rightarrow>
          (evs @ [Console_error (''Error processing business '' @ business_id b @ '':'') e], w1)
      | ((None, evs), w1) \<Rightarrow> (evs, w1))"

fun for_businesses ::
  "'w env \<Rightarrow> timezone \<Rightarrow> js_date \<Rightarrow> js_date \<Rightarrow> business list \<Rightarrow> 'w \<Rightarrow> event list \<times> 'w" where
  "for_businesses env tz firstDay lastDay [] w = ([], w)"
| "for_businesses env tz firstDay lastDay (b # bs) w =
     (case process_business env tz firstDay lastDay b w of
        (evs, w1) \<Rightarrow>
          (case for_businesses env tz firstDay lastDay bs w1 of
             (evs', w2) \<Rightarrow> (evs @ evs', w2)))"

datatype json = JString string | JBool bool | JObject "(string \<times> json) list"

record response =
  response_status :: nat
  response_headers :: "(string \<times> string) list"
  response_body :: "json option"

definition corsHeaders :: "(string \<times> string) list" where
  "corsHeaders =
     [(''Access-Control-Allow-Origin'', ''*''),
      (''Access-Control-Allow-Headers'', ''authorization, x-client-info, apikey, content-type'')]"

definition json_response :: "nat \<Rightarrow> json \<Rightarrow> response" where
  "json_response st j =
     \<lparr> response_status = st,
       response_headers = corsHeaders @ [(''Content-Type'', ''application/json'')],
       response_body = Some j \<rparr>"

text \<open>
  \<^verbatim>\<open>{ error: error.message }\<close> as \<^verbatim>\<open>JSON.stringify\<close> writes it: a property whose
  value is undefined is left out.
\<close>

definition error_body :: "exn \<Rightarrow> json" where
  "error_body e = JObject (case message e of None \<Rightarrow> [] | Some m \<Rightarrow> [(''error'', JString m)])"

text \<open>The outer \<^verbatim>\<open>catch\<close>: log, and answer 500 with the message of what was thrown.\<close>

definition run_failed :: "exn \<Rightarrow> event list \<Rightarrow> 'w \<Rightarrow> (response \<times> event list) \<times> 'w" where
  "run_failed e evs w =
     ((json_response 500 (error_body e),
       evs @ [Console_error ''Error in send-monthly-report function:'' e]), w)"

text \<open>
  The handler, given the method of the request, the time zone of the process and the
  time value of \<^verbatim>\<open>new Date()\<close>.
\<close>

definition handler ::
  "'w env \<Rightarrow> timezone \<Rightarrow> int \<Rightarrow> string \<Rightarrow> 'w \<Rightarrow> (response \<times> event list) \<times> 'w" where
  "handler env tz now method w =
     (if method = ''OPTIONS'' then
        ((\<lparr> response_status = 200, response_headers = corsHeaders, response_body = None \<rparr>, []), w)
      else
        (case createClient env of
           Some e \<Rightarrow> run_failed e [] w
         | None \<Rightarrow>
        (case select_businesses env w of
           (Rejected e, w1) \<Rightarrow> run_failed e [Select_businesses] w1
         | (Resolved businesses (Some businessError), w1) \<Rightarrow>
             run_failed businessError [Select_businesses] w1
         | (Resolved businesses None, w1) \<Rightarrow>
             (let bs = (case businesses of None \<Rightarrow> [] | Some bs \<Rightarrow> bs) in
              case for_businesses env tz (firstDayLastMonth tz now) (lastDayLastMonth tz now) bs w1 of
                (evs, w2) \<Rightarrow>
                  ((json_response 200
                      (JObject [(''success'', JBool True),
                                (''message'', JString ''Monthly reports sent successfully'')]),
                    [Select_businesses,
                     Console_log (''Processing monthly reports for '' @ decimal (length bs) @
                                  '' businesses'')] @ evs), w2)))))"

section \<open>Properties\<close>

subsection \<open>Reading the events of a run\<close>

fun is_dispatch :: "event \<Rightarrow> bool" where
  "is_dispatch (Emails_send m) = True"
| "is_dispatch _ = False"

fun is_error :: "event \<Rightarrow> bool" where
  "is_error (Console_error s e) = True"
| "is_error _ = False"

fun is_query :: "event \<Rightarrow> bool" where
  "is_query (Select_appointments i gte lte) = True"
| "is_query _ = False"

text \<open>Sample rows for the closed instances below.\<close>

definition sample_appointment :: "string \<Rightarrow> price \<Rightarrow> string option \<Rightarrow> string option \<Rightarrow> appointment" where
  "sample_appointment st p c n =
     \<lparr> appointment_id = ''a'', status = st, final_price = p, service_id = None,
       customer_id = c, services = Some \<lparr> service_name = n \<rparr> \<rparr>"

definition sample_business :: "string \<Rightarrow> string option \<Rightarrow> string option \<Rightarrow> business" where
  "sample_business i e c =
     \<lparr> business_id = i, business_name = ''Salon '' @ i, business_email = e, owner_id = None,
       business_currency = c \<rparr>"

subsection \<open>The currency of a report\<close>

lemma ownerEmail_reportData:
  "ownerEmail (reportData_of b appointments) \<noteq> [] \<longleftrightarrow> truthy (business_email b)"
  by (simp add: reportData_of_def or_else_def truthy_def split: option.splits)

lemma totalAppointments_reportData:
  "totalAppointments (reportData_of b appointments) = totalAppointments_of appointments"
  by (simp add: reportData_of_def)

text \<open>
  C9. A business whose currency column is null or empty gets the currency \<^verbatim>\<open>"NGN"\<close>
  in its report data, and so in the message that is sent; any other business gets the
  stored currency unchanged.
\<close>

theorem currency_fallback:
  "currency (reportData_of b appointments) =
     (case business_currency b of None \<Rightarrow> ''NGN'' | Some c \<Rightarrow> if c = [] then ''NGN'' else c)
   \<and> html_currency (email_html (report_email tz (reportData_of b appointments) startDate)) =
       currency (reportData_of b appointments)"
  by (simp add: reportData_of_def or_else_def report_email_def)

theorem currency_fallback_witness:
  "currency (reportData_of (sample_business ''1'' None None) None) = ''NGN''
   \<and> currency (reportData_of (sample_business ''1'' None (Some [])) None) = ''NGN''
   \<and> currency (reportData_of (sample_business ''1'' None (Some ''USD'')) None) = ''USD''"
  using currency_fallback [of "sample_business ''1'' None None" None]
    currency_fallback [of "sample_business ''1'' None (Some [])" None]
    currency_fallback [of "sample_business ''1'' None (Some ''USD'')" None]
  by (simp add: sample_business_def)

subsection \<open>One business\<close>

text \<open>What an iteration does once its query has resolved without an error.\<close>

lemma process_business_resolved:
  assumes "toISOString_date firstDay = Inr gte" and "toISOString_date lastDay = Inr lte"
    and "select_appointments env (business_id b) gte lte w = (Resolved appointments None, w1)"
  shows "process_business env tz firstDay lastDay b w =
     (if totalAppointments_of appointments > 0 \<and> truthy (business_email b) then
        (case emails_send env (report_email tz (reportData_of b appointments) firstDay) w1 of
           (Some e, w2) \<Rightarrow>
             ([Select_appointments (business_id b) gte lte,
               Emails_send (report_email tz (reportData_of b appointments) firstDay),
               Console_error (''Error processing business '' @ business_id b @ '':'') e], w2)
         | (None, w2) \<Rightarrow>
             ([Select_appointments (business_id b) gte lte,
               Emails_send (report_email tz (reportData_of b appointments) firstDay),
               Console_log (''Sent monthly report to '' @ ownerEmail (reportData_of b appointments) @
                            '' for '' @ businessName (reportData_of b appointments))], w2))
      else ([Select_appointments (business_id b) gte lte], w1))"
  using assms
  by (simp add: process_business_def business_body_def Let_def ownerEmail_reportData
      totalAppointments_reportData split: prod.splits option.splits)

text \<open>
  C3. When the query of a business resolves without an error, the iteration attempts
  exactly one dispatch if the business has at least one appointment in the window and a
  non-empty contact address, and none otherwise; in the latter case the query is the
  only thing the iteration does, so nothing is logged as an error.
\<close>

theorem dispatch_iff_activity_and_address:
  assumes "toISOString_date firstDay = Inr gte" and "toISOString_date lastDay = Inr lte"
    and "select_appointments env (business_id b) gte lte w = (Resolved appointments None, w1)"
  shows "length (filter is_dispatch (fst (process_business env tz firstDay lastDay b w))) =
           (if totalAppointments_of appointments > 0 \<and> truthy (business_email b) then 1 else 0)
         \<and> (\<not> (totalAppointments_of appointments > 0 \<and> truthy (business_email b)) \<longrightarrow>
              fst (process_business env tz firstDay lastDay b w) =
                [Select_appointments (business_id b) gte lte]
              \<and> filter is_error (fst (process_business env tz firstDay lastDay b w)) = [])"
  unfolding process_business_resolved [OF assms]
  by (simp split: prod.splits option.splits)

subsection \<open>The loop over the businesses\<close>

fun queried :: "event list \<Rightarrow> string list" where
  "queried [] = []"
| "queried (Select_appointments i gte lte # evs) = i # queried evs"
| "queried (ev # evs) = queried evs"

lemma queried_append: "queried (xs @ ys) = queried xs @ queried ys"
  by (induction xs rule: queried.induct) simp_all

lemma queried_process_business:
  assumes "toISOString_date firstDay = Inr gte" and "toISOString_date lastDay = Inr lte"
  shows "queried (fst (process_business env tz firstDay lastDay b w)) = [business_id b]"
  using assms
  by (simp add: process_business_def business_body_def Let_def
      split: prod.splits query_result.splits option.splits)

lemma queried_for_businesses:
  assumes "toISOString_date firstDay = Inr gte" and "toISOString_date lastDay = Inr lte"
  shows "queried (fst (for_businesses env tz firstDay lastDay bs w)) = map business_id bs"
proof (induction bs arbitrary: w)
  case Nil
  show ?case by simp
next
  case (Cons b bs)
  obtain evs w1 where p: "process_business env tz firstDay lastDay b w = (evs, w1)"
    by (cases "process_business env tz firstDay lastDay b w")
  obtain evs' w2 where r: "for_businesses env tz firstDay lastDay bs w1 = (evs', w2)"
    by (cases "for_businesses env tz firstDay lastDay bs w1")
  have "queried evs = [business_id b]"
    using queried_process_business [OF assms, of env tz b w] p by simp
  moreover have "queried evs' = map business_id bs"
    using Cons.IH [of w1] r by simp
  ultimately show ?case
    using p r by (simp add: queried_append)
qed

lemma for_businesses_append:
  "for_businesses env tz firstDay lastDay (xs @ ys) w =
     (case for_businesses env tz firstDay lastDay xs w of
        (e1, w1) \<Rightarrow>
          (case for_businesses env tz firstDay lastDay ys w1 of
             (e2, w2) \<Rightarrow> (e1 @ e2, w2)))"
  by (induction xs arbitrary: w) (simp_all split: prod.splits)

lemma dispatch_after_any_prefix:
  assumes d: "toISOString_date firstDay = Inr gte" "toISOString_date lastDay = Inr lte"
    and q: "select_appointments env (business_id b) gte lte
              (snd (for_businesses env tz firstDay lastDay xs w)) = (Resolved appointments None, w2)"
    and a: "0 < totalAppointments_of appointments" "truthy (business_email b)"
  shows "Emails_send (report_email tz (reportData_of b appointments) firstDay)
           \<in> set (fst (for_businesses env tz firstDay lastDay (xs @ b # ys) w))"
proof -
  have "Emails_send (report_email tz (reportData_of b appointments) firstDay)
          \<in> set (fst (process_business env tz firstDay lastDay b
                   (snd (for_businesses env tz firstDay lastDay xs w))))"
    unfolding process_business_resolved [OF d q] using a
    by (simp split: prod.splits option.splits)
  then show ?thesis
    by (auto simp: for_businesses_append split: prod.splits)
qed

text \<open>The pre-flight request is answered at once; nothing is retrieved or sent.\<close>

lemma handler_preflight:
  "handler env tz now ''OPTIONS'' w =
     ((\<lparr> response_status = 200, response_headers = corsHeaders, response_body = None \<rparr>, []), w)"
  by (simp add: handler_def)

text \<open>The run once the list of businesses has been retrieved.\<close>

lemma handler_listed:
  assumes "method \<noteq> ''OPTIONS''" and "createClient env = None"
    and "select_businesses env w = (Resolved businesses None, w0)"
  shows "handler env tz now method w =
     (case for_businesses env tz (firstDayLastMonth tz now) (lastDayLastMonth tz now)
             (case businesses of None \<Rightarrow> [] | Some bs \<Rightarrow> bs) w0 of
        (evs, w2) \<Rightarrow>
          ((json_response 200
              (JObject [(''success'', JBool True),
                        (''message'', JString ''Monthly reports sent successfully'')]),
            [Select_businesses,
             Console_log (''Processing monthly reports for '' @
                          decimal (length (case businesses of None \<Rightarrow> [] | Some bs \<Rightarrow> bs)) @
                          '' businesses'')] @ evs), w2))"
  using assms by (simp add: handler_def Let_def)

text \<open>
  The failure of a run before its loop: \<^verbatim>\<open>createClient\<close> throws, the query for the
  businesses rejects, or it resolves with an error, which the handler throws.
\<close>

definition list_failure :: "'w env \<Rightarrow> 'w \<Rightarrow> exn option" where
  "list_failure env w =
     (case createClient env of
        Some e \<Rightarrow> Some e
      | None \<Rightarrow>
          (case fst (select_businesses env w) of
             Rejected e \<Rightarrow> Some e
           | Resolved businesses (Some businessError) \<Rightarrow> Some businessError
           | Resolved businesses None \<Rightarrow> None))"

lemma handler_failed:
  assumes "method \<noteq> ''OPTIONS''" and "list_failure env w = Some e"
  shows "fst (fst (handler env tz now method w)) =
           json_response 500 (error_body e)
         \<and> filter is_query (snd (fst (handler env tz now method w))) = []
         \<and> filter is_dispatch (snd (fst (handler env tz now method w))) = []"
  using assms
  by (cases "select_businesses env w")
     (auto simp: handler_def list_failure_def run_failed_def
           split: option.splits query_result.splits)

lemma handler_succeeded:
  assumes "method \<noteq> ''OPTIONS''" and "list_failure env w = None"
  shows "fst (fst (handler env tz now method w)) =
           json_response 200
             (JObject [(''success'', JBool True),
                       (''message'', JString ''Monthly reports sent successfully'')])"
  using assms
  by (cases "select_businesses env w")
     (auto simp: handler_def list_failure_def Let_def
           split: option.splits query_result.splits prod.splits)

subsection \<open>A sample run\<close>

text \<open>
  A run on 2025-03-15 at 11:00 UTC over three businesses: the query for X resolves with
  an error, Y and Z have one appointment each, and Z has no contact address.
\<close>

definition sample_now :: int where
  "sample_now = 1742036400000"

definition sample_row :: appointment where
  "sample_row = sample_appointment ''completed'' (PriceNumber 10) (Some ''c1'') (Some ''Cut'')"

definition sample_env :: "nat env" where
  "sample_env =
     \<lparr> createClient = None,
       select_businesses =
         (\<lambda>w. (Resolved (Some [sample_business ''X'' (Some ''x@example.com'') None,
                                 sample_business ''Y'' (Some ''y@example.com'') None,
                                 sample_business ''Z'' None None]) None, Suc w)),
       select_appointments =
         (\<lambda>i gte lte w.
            (if i = ''X'' then Resolved None (Some (Exn (Some ''timeout'')))
             else Resolved (Some [sample_row]) None, Suc w)),
       emails_send = (\<lambda>m w. (None, Suc w)) \<rparr>"

lemma sample_window_utc:
  "toISOString_date (firstDayLastMonth (fixed_zone 0) sample_now) = Inr ''2025-02-01''"
  "toISOString_date (lastDayLastMonth (fixed_zone 0) sample_now) = Inr ''2025-02-28''"
  by code_simp code_simp

lemma sample_first_failed:
  "snd (for_businesses sample_env (fixed_zone 0) (firstDayLastMonth (fixed_zone 0) sample_now)
          (lastDayLastMonth (fixed_zone 0) sample_now)
          [sample_business ''X'' (Some ''x@example.com'') None] 1) = 2"
  "filter is_dispatch (fst (for_businesses sample_env (fixed_zone 0) (firstDayLastMonth (fixed_zone 0) sample_now)
          (lastDayLastMonth (fixed_zone 0) sample_now)
          [sample_business ''X'' (Some ''x@example.com'') None] 1)) = []"
  by (simp_all add: process_business_def business_body_def sample_window_utc sample_env_def
      sample_business_def)

text \<open>In the sample run Y gets one dispatch and Z, which has no address, only its query.\<close>

theorem dispatch_iff_activity_and_address_witness:
  "length (filter is_dispatch (fst (process_business sample_env (fixed_zone 0)
       (firstDayLastMonth (fixed_zone 0) sample_now) (lastDayLastMonth (fixed_zone 0) sample_now)
       (sample_business ''Y'' (Some ''y@example.com'') None) 0))) = 1
   \<and> fst (process_business sample_env (fixed_zone 0)
       (firstDayLastMonth (fixed_zone 0) sample_now) (lastDayLastMonth (fixed_zone 0) sample_now)
       (sample_business ''Z'' None None) 0) = [Select_appointments ''Z'' ''2025-02-01'' ''2025-02-28'']"
proof -
  let ?Y = "sample_business ''Y'' (Some ''y@example.com'') None"
  let ?Z = "sample_business ''Z'' None None"
  have y: "select_appointments sample_env (business_id ?Y) ''2025-02-01'' ''2025-02-28'' 0 =
      (Resolved (Some [sample_row]) None, 1)"
    by (simp add: sample_env_def sample_business_def)
  have z: "select_appointments sample_env (business_id ?Z) ''2025-02-01'' ''2025-02-28'' 0 =
      (Resolved (Some [sample_row]) None, 1)"
    by (simp add: sample_env_def sample_business_def)
  have a: "0 < totalAppointments_of (Some [sample_row])" "truthy (business_email ?Y)"
    "\<not> truthy (business_email ?Z)" "business_id ?Z = ''Z''"
    by (simp_all add: totalAppointments_of_def truthy_def sample_business_def)
  show ?thesis
    using dispatch_iff_activity_and_address [OF sample_window_utc y, of "fixed_zone 0"]
      dispatch_iff_activity_and_address [OF sample_window_utc z, of "fixed_zone 0"] a
    by simp
qed

text \<open>
  C2. In a run whose list of businesses was retrieved, whatever happens to a business
  (its query rejects or resolves with an error, its dispatch throws) stays inside its
  iteration: the run answers 200, the appointments of every business are asked for, in the
  order of the list, and a business that qualifies in the state the earlier ones have left
  (its query resolves, it has appointments and an address) gets its message dispatched.
\<close>

theorem tenant_failures_isolated:
  assumes m: "method \<noteq> ''OPTIONS''" and c: "createClient env = None"
    and l: "select_businesses env w = (Resolved (Some bs) None, w0)"
    and d: "toISOString_date (firstDayLastMonth tz now) = Inr gte"
      "toISOString_date (lastDayLastMonth tz now) = Inr lte"
  shows "response_status (fst (fst (handler env tz now method w))) = 200
    \<and> queried (snd (fst (handler env tz now method w))) = map business_id bs
    \<and> (\<forall>xs b ys appointments w2.
          bs = xs @ b # ys \<and>
          select_appointments env (business_id b) gte lte
            (snd (for_businesses env tz (firstDayLastMonth tz now) (lastDayLastMonth tz now) xs w0)) =
              (Resolved appointments None, w2) \<and>
          0 < totalAppointments_of appointments \<and> truthy (business_email b) \<longrightarrow>
          Emails_send (report_email tz (reportData_of b appointments) (firstDayLastMonth tz now))
            \<in> set (snd (fst (handler env tz now method w))))"
proof -
  let ?run = "for_businesses env tz (firstDayLastMonth tz now) (lastDayLastMonth tz now)"
  obtain evs w2 where r: "?run bs w0 = (evs, w2)"
    by (cases "?run bs w0")
  have h: "handler env tz now method w =
      ((json_response 200
          (JObject [(''success'', JBool True),
                    (''message'', JString ''Monthly reports sent successfully'')]),
        [Select_businesses,
         Console_log (''Processing monthly reports for '' @ decimal (length bs) @ '' businesses'')]
        @ evs), w2)"
    using handler_listed [OF m c l, of tz now] r by simp
  have "queried evs = map business_id bs"
    using queried_for_businesses [OF d, of env tz bs w0] r by simp
  moreover have "Emails_send (report_email tz (reportData_of b appointments) (firstDayLastMonth tz now))
      \<in> set evs"
    if "bs = xs @ b # ys"
      and "select_appointments env (business_id b) gte lte (snd (?run xs w0)) =
             (Resolved appointments None, w3)"
      and "0 < totalAppointments_of appointments" and "truthy (business_email b)"
    for xs b ys appointments w3
    using dispatch_after_any_prefix [OF d that(2) that(3) that(4), of ys] r that(1) by simp
  ultimately show ?thesis
    unfolding h by (simp add: json_response_def)
qed

theorem tenant_failures_isolated_witness:
  "response_status (fst (fst (handler sample_env (fixed_zone 0) sample_now ''POST'' 0))) = 200
   \<and> queried (snd (fst (handler sample_env (fixed_zone 0) sample_now ''POST'' 0))) = [''X'', ''Y'', ''Z'']
   \<and> Emails_send (report_email (fixed_zone 0)
         (reportData_of (sample_business ''Y'' (Some ''y@example.com'') None) (Some [sample_row]))
         (firstDayLastMonth (fixed_zone 0) sample_now))
       \<in> set (snd (fst (handler sample_env (fixed_zone 0) sample_now ''POST'' 0)))"
proof -
  let ?X = "sample_business ''X'' (Some ''x@example.com'') None"
  let ?Y = "sample_business ''Y'' (Some ''y@example.com'') None"
  let ?Z = "sample_business ''Z'' None None"
  have m: "''POST'' \<noteq> ''OPTIONS''" by simp
  have c: "createClient sample_env = None" by (simp add: sample_env_def)
  have l: "select_businesses sample_env 0 = (Resolved (Some [?X, ?Y, ?Z]) None, 1)"
    by (simp add: sample_env_def)
  note t = tenant_failures_isolated [OF m c l sample_window_utc]
  have q: "select_appointments sample_env (business_id ?Y) ''2025-02-01'' ''2025-02-28''
        (snd (for_businesses sample_env (fixed_zone 0) (firstDayLastMonth (fixed_zone 0) sample_now)
               (lastDayLastMonth (fixed_zone 0) sample_now) [?X] 1)) =
      (Resolved (Some [sample_row]) None, 3)"
    unfolding sample_first_failed by (simp add: sample_env_def sample_business_def)
  have a: "0 < totalAppointments_of (Some [sample_row])" "truthy (business_email ?Y)"
    by (simp_all add: totalAppointments_of_def truthy_def sample_business_def)
  have "[?X, ?Y, ?Z] = [?X] @ ?Y # [?Z]" by simp
  note t3 = t [THEN conjunct2, THEN conjunct2, rule_format, of "[?X]" ?Y "[?Z]" "Some [sample_row]" 3]
  have e: "Emails_send (report_email (fixed_zone 0) (reportData_of ?Y (Some [sample_row]))
         (firstDayLastMonth (fixed_zone 0) sample_now))
       \<in> set (snd (fst (handler sample_env (fixed_zone 0) sample_now ''POST'' 0)))"
    using q a by (intro t3) simp
  have i: "map business_id [?X, ?Y, ?Z] = [''X'', ''Y'', ''Z'']"
    by (simp add: sample_business_def)
  show ?thesis
    using t [THEN conjunct1] t [THEN conjunct2, THEN conjunct1] e unfolding i by (intro conjI)
qed

text \<open>
  The body the specification describes for a failed run: an object with the one property
  \<^verbatim>\<open>error\<close>, a string.
\<close>

definition spec_error_body :: "json option \<Rightarrow> bool" where
  "spec_error_body body =
     (case body of
        Some (JObject [(k, JString m)]) \<Rightarrow> k = ''error''
      | _ \<Rightarrow> False)"

text \<open>
  C4. A run (any request but the \<^verbatim>\<open>OPTIONS\<close> pre-flight, which is answered at once
  with 200 and no body) answers 500 exactly when it fails before the loop:
  \<^verbatim>\<open>createClient\<close> throws or the list of businesses is not retrieved. No business has
  then been queried or mailed, and the body is \<^verbatim>\<open>{ error: message }\<close> when the value
  thrown has a message and \<^verbatim>\<open>{}\<close> when it has none. Otherwise the answer is 200 with
  \<^verbatim>\<open>{ success: true, message: "Monthly reports sent successfully" }\<close>. Both answers
  are marked as JSON.
\<close>

theorem response_of_run:
  assumes "method \<noteq> ''OPTIONS''"
  shows "(response_status (fst (fst (handler env tz now method w))) = 500 \<longleftrightarrow>
            list_failure env w \<noteq> None)
         \<and> (case list_failure env w of
              Some e \<Rightarrow>
                response_status (fst (fst (handler env tz now method w))) = 500
                \<and> response_body (fst (fst (handler env tz now method w))) =
                    Some (JObject (case message e of
                                     None \<Rightarrow> []
                                   | Some m \<Rightarrow> [(''error'', JString m)]))
                \<and> response_headers (fst (fst (handler env tz now method w))) =
                    corsHeaders @ [(''Content-Type'', ''application/json'')]
                \<and> filter is_query (snd (fst (handler env tz now method w))) = []
                \<and> filter is_dispatch (snd (fst (handler env tz now method w))) = []
            | None \<Rightarrow>
                response_status (fst (fst (handler env tz now method w))) = 200
                \<and> response_body (fst (fst (handler env tz now method w))) =
                    Some (JObject [(''success'', JBool True),
                                   (''message'', JString ''Monthly reports sent successfully'')])
                \<and> response_headers (fst (fst (handler env tz now method w))) =
                    corsHeaders @ [(''Content-Type'', ''application/json'')])"
proof (cases "list_failure env w")
  case None
  then show ?thesis
    using handler_succeeded [OF assms None, of tz now] by (simp add: json_response_def)
next
  case (Some e)
  then show ?thesis
    using handler_failed [OF assms Some, of tz now] by (simp add: json_response_def error_body_def)
qed

text \<open>
  The sample run answers 200 with the success body; when \<^verbatim>\<open>createClient\<close> throws an
  \<^verbatim>\<open>Error\<close> the answer is 500 with the message of the error.
\<close>

theorem response_of_run_witness:
  "response_status (fst (fst (handler sample_env (fixed_zone 0) sample_now ''POST'' 0))) = 200
   \<and> response_body (fst (fst (handler sample_env (fixed_zone 0) sample_now ''POST'' 0))) =
       Some (JObject [(''success'', JBool True),
                      (''message'', JString ''Monthly reports sent successfully'')])
   \<and> response_status (fst (fst (handler
         (sample_env\<lparr>createClient := Some (Exn (Some ''supabaseUrl is required.''))\<rparr>)
         (fixed_zone 0) sample_now ''POST'' 0))) = 500
   \<and> response_body (fst (fst (handler
         (sample_env\<lparr>createClient := Some (Exn (Some ''supabaseUrl is required.''))\<rparr>)
         (fixed_zone 0) sample_now ''POST'' 0))) =
       Some (JObject [(''error'', JString ''supabaseUrl is required.'')])"
proof -
  have m: "''POST'' \<noteq> ''OPTIONS''" by simp
  have "list_failure sample_env 0 = None"
    by (simp add: list_failure_def sample_env_def)
  moreover have
    "list_failure (sample_env\<lparr>createClient := Some (Exn (Some ''supabaseUrl is required.''))\<rparr>) 0 =
       Some (Exn (Some ''supabaseUrl is required.''))"
    by (simp add: list_failure_def sample_env_def)
  ultimately show ?thesis
    using response_of_run [OF m, of sample_env "fixed_zone 0" sample_now 0]
      response_of_run [OF m,
        of "sample_env\<lparr>createClient := Some (Exn (Some ''supabaseUrl is required.''))\<rparr>"
        "fixed_zone 0" sample_now 0]
    by simp
qed

text \<open>
  When the query for the businesses rejects with a value that has no \<^verbatim>\<open>message\<close>
  (\<^verbatim>\<open>Promise.reject({})\<close>, say), the answer is 500 with the body \<^verbatim>\<open>{}\<close>, which has
  no \<^verbatim>\<open>error\<close> property.
\<close>

theorem response_without_message_counterexample:
  "response_status (fst (fst (handler
       (sample_env\<lparr>select_businesses := (\<lambda>w. (Rejected (Exn None), Suc w))\<rparr>)
       (fixed_zone 0) sample_now ''POST'' 0))) = 500
   \<and> response_body (fst (fst (handler
       (sample_env\<lparr>select_businesses := (\<lambda>w. (Rejected (Exn None), Suc w))\<rparr>)
       (fixed_zone 0) sample_now ''POST'' 0))) = Some (JObject [])
   \<and> \<not> spec_error_body (response_body (fst (fst (handler
       (sample_env\<lparr>select_businesses := (\<lambda>w. (Rejected (Exn None), Suc w))\<rparr>)
       (fixed_zone 0) sample_now ''POST'' 0))))"
  by (simp add: handler_def run_failed_def json_response_def error_body_def sample_env_def
      spec_error_body_def)

subsection \<open>Customers\<close>

text \<open>
  The count the specification describes: the distinct customer references of the records
  whose reference is not null.
\<close>

definition non_null :: "string option \<Rightarrow> bool" where
  "non_null v = (v \<noteq> None)"

definition spec_customers :: "appointment list \<Rightarrow> nat" where
  "spec_customers xs = card (set (filter non_null (map customer_id xs)))"

lemma uniqueCustomers_image:
  "uniqueCustomers_of (Some xs) = Some ` {c. c \<noteq> [] \<and> (\<exists>a \<in> set xs. customer_id a = Some c)}"
proof (rule set_eqI)
  fix v
  show "v \<in> uniqueCustomers_of (Some xs) \<longleftrightarrow>
      v \<in> Some ` {c. c \<noteq> [] \<and> (\<exists>a \<in> set xs. customer_id a = Some c)}"
  proof (cases v)
    case None
    then show ?thesis
      by (auto simp: uniqueCustomers_of_def truthy_def)
  next
    case (Some c)
    have "Some c \<in> customer_id ` set xs \<longleftrightarrow> (\<exists>a \<in> set xs. customer_id a = Some c)"
      by (metis (no_types) image_iff)
    then show ?thesis
      using Some by (auto simp: uniqueCustomers_of_def truthy_def)
  qed
qed

text \<open>
  C8. The customer count of a report is the number of distinct customer references of the
  records, the records left out whose reference is null or the empty string
  (\<^verbatim>\<open>filter(Boolean)\<close> drops every falsy value, not only null).
\<close>

theorem customers_counted:
  "newCustomers_of (Some xs) = card {c. c \<noteq> [] \<and> (\<exists>a \<in> set xs. customer_id a = Some c)}
   \<and> newCustomers_of None = 0
   \<and> newCustomers (reportData_of b appointments) = newCustomers_of appointments"
proof -
  have "card (Some ` {c. c \<noteq> [] \<and> (\<exists>a \<in> set xs. customer_id a = Some c)}) =
      card {c. c \<noteq> [] \<and> (\<exists>a \<in> set xs. customer_id a = Some c)}"
    by (rule card_image) simp
  then show ?thesis
    by (simp add: newCustomers_of_def uniqueCustomers_image reportData_of_def)
      (simp add: uniqueCustomers_of_def)
qed

text \<open>On records without an empty reference the count is the one of the specification.\<close>

lemma customers_spec_agree:
  assumes "\<forall>a \<in> set xs. customer_id a \<noteq> Some []"
  shows "newCustomers_of (Some xs) = spec_customers xs"
proof -
  have "filter truthy (map customer_id xs) = filter non_null (map customer_id xs)"
    using assms by (intro filter_cong) (auto simp: truthy_def non_null_def split: option.splits)
  then show ?thesis
    by (simp add: newCustomers_of_def uniqueCustomers_of_def spec_customers_def)
qed

definition sample_customers :: "appointment list" where
  "sample_customers =
     [sample_appointment ''completed'' PriceNull (Some ''c1'') None,
      sample_appointment ''pending'' PriceNull None None,
      sample_appointment ''completed'' PriceNull (Some ''c2'') None,
      sample_appointment ''cancelled'' PriceNull (Some ''c1'') None]"

theorem customers_counted_witness:
  "newCustomers_of (Some sample_customers) = 2"
proof -
  have "card {c. c \<noteq> [] \<and> (\<exists>a \<in> set sample_customers. customer_id a = Some c)} =
      card {''c1'', ''c2''}"
    by (rule arg_cong [where f = card])
      (auto simp: sample_customers_def sample_appointment_def)
  then show ?thesis
    using customers_counted [of sample_customers] by simp
qed

text \<open>
  A record whose reference is the empty string is not counted, although its reference is
  not null.
\<close>

theorem customers_empty_reference_counterexample:
  "newCustomers_of (Some [sample_appointment ''completed'' PriceNull (Some []) None]) = 0
   \<and> spec_customers [sample_appointment ''completed'' PriceNull (Some []) None] = 1"
  by (simp add: newCustomers_of_def uniqueCustomers_of_def spec_customers_def
      sample_appointment_def truthy_def non_null_def)

subsection \<open>Rounding to a double\<close>

lemma round_even_near: "\<bar>of_int (round_even q) - q\<bar> \<le> 1 / 2"
proof -
  have "of_int \<lfloor>q\<rfloor> \<le> q" "q < of_int \<lfloor>q\<rfloor> + 1"
    by linarith+
  then show ?thesis
    unfolding round_even_def Let_def by (simp split: if_splits)
qed

lemma binade_le:
  assumes "0 < x"
  shows "2 powi binade x \<le> x"
proof (cases "2 powi (bitlen (fst (quotient_of x)) - bitlen (snd (quotient_of x))) \<le> x")
  case True
  then show ?thesis by (simp add: binade_def)
next
  case False
  obtain a b where q: "quotient_of x = (a, b)"
    by (cases "quotient_of x")
  have b: "0 < b" using q by (rule quotient_of_denom_pos)
  have x: "x = of_int a / of_int b" using q by (rule quotient_of_div)
  have a: "0 < a"
    using assms b unfolding x by (simp add: zero_less_divide_iff)
  have la: "1 \<le> bitlen a" and lb: "1 \<le> bitlen b"
    using a b by (simp_all add: bitlen_alt_def)
  have "(2::int) ^ nat (bitlen a - 1) \<le> a" "b < 2 ^ nat (bitlen b)"
    using bitlen_bounds [OF a] bitlen_bounds [OF b] by simp_all
  then have n: "(2::rat) ^ nat (bitlen a - 1) \<le> of_int a" and d: "(of_int b :: rat) \<le> 2 ^ nat (bitlen b)"
    by (metis of_int_le_iff of_int_numeral of_int_power, metis less_imp_le of_int_le_iff of_int_numeral of_int_power)
  have "(2::rat) powi (bitlen a - bitlen b - 1) = 2 powi (bitlen a - 1) / 2 powi bitlen b"
    using power_int_diff [of "2::rat" "bitlen a - 1" "bitlen b"] by (simp add: algebra_simps)
  also have "\<dots> = 2 ^ nat (bitlen a - 1) / 2 ^ nat (bitlen b)"
    using la lb by (simp add: power_int_def)
  also have "\<dots> \<le> of_int a / of_int b"
    using n d a b by (intro frac_le) simp_all
  finally have "(2::rat) powi (bitlen a - bitlen b - 1) \<le> x"
    by (simp only: x [symmetric])
  then show ?thesis
    using False by (simp add: binade_def q)
qed

text \<open>With the bound above: the scaled value that \<open>fl\<close> rounds lies between \<open>2^52\<close> and \<open>2^53\<close>.\<close>

lemma binade_less:
  assumes "0 < x"
  shows "x < 2 powi (binade x + 1)"
proof (cases "2 powi (bitlen (fst (quotient_of x)) - bitlen (snd (quotient_of x))) \<le> x")
  case False
  then show ?thesis by (simp add: binade_def)
next
  case True
  obtain a b where q: "quotient_of x = (a, b)"
    by (cases "quotient_of x")
  have b: "0 < b" using q by (rule quotient_of_denom_pos)
  have x: "x = of_int a / of_int b" using q by (rule quotient_of_div)
  have a: "0 < a"
    using assms b unfolding x by (simp add: zero_less_divide_iff)
  have la: "1 \<le> bitlen a" and lb: "1 \<le> bitlen b"
    using a b by (simp_all add: bitlen_alt_def)
  have "a < 2 ^ nat (bitlen a)" "(2::int) ^ nat (bitlen b - 1) \<le> b"
    using bitlen_bounds [OF a] bitlen_bounds [OF b] by simp_all
  then have n: "(of_int a :: rat) < 2 ^ nat (bitlen a)" and d: "(2::rat) ^ nat (bitlen b - 1) \<le> of_int b"
    by (metis of_int_less_iff of_int_numeral of_int_power, metis of_int_le_iff of_int_numeral of_int_power)
  have "of_int a / of_int b < (2::rat) ^ nat (bitlen a) / 2 ^ nat (bitlen b - 1)"
    using n d a b by (intro frac_less) simp_all
  also have "\<dots> = 2 powi bitlen a / 2 powi (bitlen b - 1)"
    using la lb by (simp add: power_int_def)
  also have "\<dots> = 2 powi (bitlen a - bitlen b + 1)"
    using power_int_diff [of "2::rat" "bitlen a" "bitlen b - 1"] by (simp add: algebra_simps)
  finally have "x < 2 powi (bitlen a - bitlen b + 1)"
    by (simp only: x [symmetric])
  then show ?thesis
    using True by (simp add: binade_def q)
qed

lemma fl_error:
  assumes "0 < x"
  shows "\<bar>fl x - x\<bar> \<le> x / 2 ^ 53"
proof -
  define s :: rat where "s = 2 powi (binade x - 52)"
  have s: "0 < s" by (simp add: s_def)
  have f: "fl x = of_int (round_even (x / s)) * s"
    using assms by (simp add: fl_def s_def)
  have "fl x - x = (of_int (round_even (x / s)) - x / s) * s"
    using s by (simp add: f algebra_simps)
  then have "\<bar>fl x - x\<bar> = \<bar>of_int (round_even (x / s)) - x / s\<bar> * s"
    using s by (simp add: abs_mult)
  also have "\<dots> \<le> 1 / 2 * s"
    using round_even_near [of "x / s"] s by (intro mult_right_mono) simp_all
  also have "1 / 2 * s = 2 powi binade x / 2 ^ 53"
    using power_int_diff [of "2::rat" "binade x" 52] by (simp add: s_def)
  also have "\<dots> \<le> x / 2 ^ 53"
    using binade_le [OF assms] by (simp add: divide_right_mono)
  finally show ?thesis .
qed

lemma fl_zero: "fl 0 = 0"
  by (simp add: fl_def)

lemma fl_pos:
  assumes "0 < x"
  shows "0 < fl x"
proof -
  have "x / 2 ^ 53 < x"
    using assms by (simp add: field_simps)
  with fl_error [OF assms] show ?thesis
    by linarith
qed

text \<open>
  Where \<open>double\<close> and \<open>fl\<close> agree, and the whole numbers below \<open>2^53\<close>, which are
  doubles.
\<close>

lemma round_even_int: "round_even (of_int m) = m"
  by (simp add: round_even_def)

lemma binade_lower:
  assumes "0 < x" and "2 powi k \<le> x"
  shows "k \<le> binade x"
proof (rule ccontr)
  assume "\<not> k \<le> binade x"
  then have "binade x + 1 \<le> k" by simp
  then have "(2::rat) powi (binade x + 1) \<le> 2 powi k"
    by (intro power_int_increasing) simp_all
  with binade_less [OF assms(1)] assms(2) show False by linarith
qed

lemma binade_upper:
  assumes "0 < x" and "x < 2 powi k"
  shows "binade x < k"
proof (rule ccontr)
  assume "\<not> binade x < k"
  then have "k \<le> binade x" by simp
  then have "(2::rat) powi k \<le> 2 powi binade x"
    by (intro power_int_increasing) simp_all
  with binade_le [OF assms(1)] assms(2) show False by linarith
qed

lemma double_fl:
  assumes "2 powi (- 1022) \<le> \<bar>x\<bar>" and "\<bar>fl x\<bar> < 2 ^ 1024"
  shows "double x = Fin (fl x)"
proof -
  have p: "0 < \<bar>x\<bar>"
    using assms(1) by (smt (verit) zero_less_power_int zero_less_numeral less_le_trans)
  then have x: "x \<noteq> 0" by simp
  have "- 1022 \<le> binade \<bar>x\<bar>"
    using p assms(1) by (rule binade_lower)
  then have e: "max (binade \<bar>x\<bar> - 52) (- 1074) = binade \<bar>x\<bar> - 52"
    by simp
  define v where "v = of_int (round_even (\<bar>x\<bar> / 2 powi (binade \<bar>x\<bar> - 52))) * (2::rat) powi (binade \<bar>x\<bar> - 52)"
  have f: "fl x = sgn x * v"
    using x by (simp add: fl_def v_def)
  have "\<bar>fl x\<bar> = \<bar>v\<bar>"
    using x unfolding f by (simp add: abs_mult)
  then have "v < 2 ^ 1024"
    using assms(2) by linarith
  then have "\<not> of_int (2 ^ 1024) \<le> v"
    by simp
  then show ?thesis
    using x unfolding double_def e Let_def v_def [symmetric] f by simp
qed

lemma double_int:
  assumes "\<bar>n\<bar> < 2 ^ 53"
  shows "double (of_int n) = Fin (of_int n)"
proof (cases "n = 0")
  case True
  then show ?thesis by (simp add: double_def)
next
  case False
  define x :: rat where "x = of_int \<bar>n\<bar>"
  define j where "j = nat (52 - binade x)"
  have a: "\<bar>of_int n :: rat\<bar> = x"
    by (simp add: x_def)
  have "1 \<le> \<bar>n\<bar>" using False by simp
  then have x1: "1 \<le> x"
    unfolding x_def by (simp only: of_int_1_le_iff)
  then have p: "0 < x" by simp
  have "of_int \<bar>n\<bar> < (of_int (2 ^ 53) :: rat)"
    using assms by (simp only: of_int_less_iff)
  then have x53: "x < 2 ^ 53" by (simp add: x_def)
  then have "x < 2 powi 53" by simp
  then have u: "binade x < 53"
    using p by (intro binade_upper)
  have "(2::rat) powi 0 \<le> x" using x1 by simp
  then have l: "0 \<le> binade x"
    using p by (intro binade_lower)
  have e: "max (binade x - 52) (- 1074) = binade x - 52"
    using l by simp
  have "binade x - 52 = - int j"
    using u by (simp add: j_def)
  then have s: "(2::rat) powi (binade x - 52) = 1 / 2 ^ j"
    using power_int_minus_divide [of "2::rat" "int j"] by simp
  have q: "x / 2 powi (binade x - 52) = of_int (\<bar>n\<bar> * 2 ^ j)"
    unfolding s by (simp add: x_def)
  have "of_int (round_even (x / 2 powi (binade x - 52))) * (2::rat) powi (binade x - 52) =
      of_int (\<bar>n\<bar> * 2 ^ j) * 2 powi (binade x - 52)"
    by (simp only: q round_even_int)
  also have "\<dots> = x"
    unfolding s by (simp add: x_def)
  finally have v: "of_int (round_even (x / 2 powi (binade x - 52))) * (2::rat) powi (binade x - 52) = x" .
  have "x < 2 ^ 1024"
    using x53 by (rule less_trans) simp
  then have o: "\<not> of_int (2 ^ 1024) \<le> x"
    by simp
  have n0: "(of_int n :: rat) \<noteq> 0" using False by simp
  have g: "sgn (of_int n :: rat) * x = of_int n"
    unfolding a [symmetric] by (rule sgn_mult_abs)
  show ?thesis
    using n0 o unfolding double_def Let_def a e v g by simp
qed

subsection \<open>Revenue\<close>

definition completed :: "appointment \<Rightarrow> bool" where
  "completed a = (status a = ''completed'')"

text \<open>
  The sum the specification describes: over the completed records, the amount coerced to
  a number, with zero for an amount that is missing or not a number.
\<close>

definition spec_amount :: "price \<Rightarrow> rat" where
  "spec_amount p = (case price_number p of Fin q \<Rightarrow> q | _ \<Rightarrow> 0)"

definition spec_revenue :: "appointment list \<Rightarrow> number" where
  "spec_revenue xs = Fin (sum_list (map (\<lambda>a. spec_amount (final_price a)) (filter completed xs)))"

text \<open>The sum of a list of amounts as doubles add it: from the left, every partial sum rounded.\<close>

definition double_sum :: "rat list \<Rightarrow> number" where
  "double_sum qs = foldl (\<lambda>s q. add_number s (Fin q)) (Fin 0) qs"

lemma parseFloat_zero: "parseFloat ''0'' = Fin 0"
  by code_simp

lemma parseFloat_abc: "parseFloat ''abc'' = NaN"
  by code_simp

lemma price_number_null: "price_number PriceNull = Fin 0" "price_number (PriceString []) = Fin 0"
  by (simp_all add: parseFloat_zero)

lemma add_number_NaN: "add_number NaN x = NaN" "add_number x NaN = NaN"
  by (cases x; simp)+

lemma foldl_add_NaN:
  "foldl (\<lambda>sum a. add_number sum (price_number (final_price a))) NaN xs = NaN"
  by (induction xs) (simp_all add: add_number_NaN)

lemma foldl_add_finite:
  assumes "\<forall>a \<in> set xs. \<exists>q. price_number (final_price a) = Fin q"
  shows "foldl (\<lambda>sum a. add_number sum (price_number (final_price a))) s xs =
           foldl (\<lambda>s q. add_number s (Fin q)) s (map (\<lambda>a. spec_amount (final_price a)) xs)"
  using assms
proof (induction xs arbitrary: s)
  case Nil
  show ?case by simp
next
  case (Cons a xs)
  from Cons.prems obtain q where q: "price_number (final_price a) = Fin q"
    by auto
  have "foldl (\<lambda>sum a. add_number sum (price_number (final_price a))) (add_number s (Fin q)) xs =
      foldl (\<lambda>s q. add_number s (Fin q)) (add_number s (Fin q)) (map (\<lambda>a. spec_amount (final_price a)) xs)"
    using Cons.prems by (intro Cons.IH) simp
  then show ?case
    using q by (simp add: spec_amount_def)
qed

lemma foldl_add_whole:
  assumes "\<forall>a \<in> set xs. \<exists>k. price_number (final_price a) = Fin (of_int k)"
    and "\<bar>of_int s\<bar> + sum_list (map (\<lambda>a. \<bar>spec_amount (final_price a)\<bar>) xs) < 2 ^ 53"
  shows "foldl (\<lambda>sum a. add_number sum (price_number (final_price a))) (Fin (of_int s)) xs =
           Fin (of_int s + sum_list (map (\<lambda>a. spec_amount (final_price a)) xs))"
  using assms
proof (induction xs arbitrary: s)
  case Nil
  show ?case by simp
next
  case (Cons a xs)
  define r where "r = sum_list (map (\<lambda>a. \<bar>spec_amount (final_price a)\<bar>) xs)"
  from Cons.prems(1) obtain k where k: "price_number (final_price a) = Fin (of_int k)"
    by auto
  then have a: "spec_amount (final_price a) = of_int k"
    by (simp add: spec_amount_def)
  have r: "0 \<le> r"
    unfolding r_def by (intro sum_list_nonneg) auto
  have b: "\<bar>of_int s :: rat\<bar> + \<bar>of_int k\<bar> + r < 2 ^ 53"
    using Cons.prems(2) by (simp add: a r_def add.assoc)
  have "\<bar>of_int (s + k) :: rat\<bar> \<le> \<bar>of_int s\<bar> + \<bar>of_int k\<bar>"
    by simp
  then have c: "\<bar>of_int (s + k) :: rat\<bar> + r < 2 ^ 53"
    using b by linarith
  then have "\<bar>of_int (s + k) :: rat\<bar> < 2 ^ 53"
    using r by linarith
  then have "\<bar>s + k\<bar> < 2 ^ 53"
    by (metis of_int_abs of_int_less_iff of_int_numeral of_int_power)
  then have d: "double (of_int (s + k)) = Fin (of_int (s + k))"
    by (rule double_int)
  have "foldl (\<lambda>sum a. add_number sum (price_number (final_price a))) (Fin (of_int (s + k))) xs =
      Fin (of_int (s + k) + sum_list (map (\<lambda>a. spec_amount (final_price a)) xs))"
    using Cons.prems(1) c unfolding r_def by (intro Cons.IH) simp_all
  moreover have "add_number (Fin (of_int s)) (price_number (final_price a)) = Fin (of_int (s + k))"
    using d by (simp add: k)
  ultimately show ?case
    by (simp add: a add.assoc)
qed

lemma foldl_add_poisoned:
  assumes "a \<in> set xs" and "price_number (final_price a) = NaN"
  shows "foldl (\<lambda>sum a. add_number sum (price_number (final_price a))) s xs = NaN"
  using assms
proof (induction xs arbitrary: s)
  case Nil
  then show ?case by simp
next
  case (Cons b xs)
  show ?case
  proof (cases "b = a")
    case True
    then show ?thesis
      using Cons.prems by (simp add: add_number_NaN foldl_add_NaN)
  next
    case False
    then show ?thesis
      using Cons.prems Cons.IH by simp
  qed
qed

text \<open>
  C6. When the amount of every completed record is missing or reads as a finite number,
  the revenue is the sum of these amounts over the completed records as doubles add it:
  record by record, every partial sum rounded to the nearest double, a missing amount
  counting as zero. It is their exact sum when the amounts are whole numbers whose
  absolute values add up to less than \<open>2^53\<close>. Records of any other status contribute
  nothing, whatever their amount. An amount that does not read as a number is not counted
  as zero: one such completed record makes the sum NaN, and the revenue reported is then 0.
\<close>

theorem revenue_of_completed:
  "((\<forall>a \<in> set xs. completed a \<longrightarrow> (\<exists>q. price_number (final_price a) = Fin q)) \<longrightarrow>
      totalRevenue_of (Some xs) =
        or_zero (double_sum (map (\<lambda>a. spec_amount (final_price a)) (filter completed xs))))
   \<and> ((\<forall>a \<in> set xs. completed a \<longrightarrow> (\<exists>k. price_number (final_price a) = Fin (of_int k)))
        \<and> sum_list (map (\<lambda>a. \<bar>spec_amount (final_price a)\<bar>) (filter completed xs)) < 2 ^ 53 \<longrightarrow>
      totalRevenue_of (Some xs) = spec_revenue xs)
   \<and> ((\<exists>a \<in> set xs. completed a \<and> price_number (final_price a) = NaN) \<longrightarrow>
      totalRevenue_of (Some xs) = Fin 0)
   \<and> price_number PriceNull = Fin 0
   \<and> totalRevenue (reportData_of b appointments) = totalRevenue_of appointments"
proof (intro conjI impI)
  assume f: "\<forall>a \<in> set xs. completed a \<longrightarrow> (\<exists>q. price_number (final_price a) = Fin q)"
  then have "\<forall>a \<in> set (filter completed xs). \<exists>q. price_number (final_price a) = Fin q"
    by simp
  from foldl_add_finite [OF this, of "Fin 0"]
  show "totalRevenue_of (Some xs) =
      or_zero (double_sum (map (\<lambda>a. spec_amount (final_price a)) (filter completed xs)))"
    by (simp add: totalRevenue_of_def double_sum_def completed_def [abs_def])
next
  assume w: "(\<forall>a \<in> set xs. completed a \<longrightarrow> (\<exists>k. price_number (final_price a) = Fin (of_int k)))
        \<and> sum_list (map (\<lambda>a. \<bar>spec_amount (final_price a)\<bar>) (filter completed xs)) < 2 ^ 53"
  then have 1: "\<forall>a \<in> set (filter completed xs). \<exists>k. price_number (final_price a) = Fin (of_int k)"
    by simp
  have 2: "\<bar>of_int 0 :: rat\<bar> + sum_list (map (\<lambda>a. \<bar>spec_amount (final_price a)\<bar>) (filter completed xs)) < 2 ^ 53"
    using w by simp
  from foldl_add_whole [OF 1 2]
  show "totalRevenue_of (Some xs) = spec_revenue xs"
    by (simp add: totalRevenue_of_def spec_revenue_def or_zero_def completed_def [abs_def])
next
  assume "\<exists>a \<in> set xs. completed a \<and> price_number (final_price a) = NaN"
  then obtain a where "a \<in> set (filter completed xs)" "price_number (final_price a) = NaN"
    by auto
  from foldl_add_poisoned [OF this, of "Fin 0"] show "totalRevenue_of (Some xs) = Fin 0"
    by (simp add: totalRevenue_of_def or_zero_def completed_def [abs_def])
next
  show "price_number PriceNull = Fin 0"
    by (rule price_number_null)
next
  show "totalRevenue (reportData_of b appointments) = totalRevenue_of appointments"
    by (simp add: reportData_of_def)
qed

definition sample_revenue :: "appointment list" where
  "sample_revenue =
     [sample_appointment ''completed'' (PriceNumber 10) None None,
      sample_appointment ''cancelled'' (PriceNumber 999) None None]"

definition sample_poisoned :: "appointment list" where
  "sample_poisoned =
     [sample_appointment ''completed'' (PriceNumber 10) None None,
      sample_appointment ''completed'' (PriceString ''abc'') None None]"

definition sample_tenths :: "appointment list" where
  "sample_tenths =
     [sample_appointment ''completed'' (PriceNumber (1 / 10)) None None,
      sample_appointment ''completed'' (PriceNumber (1 / 5)) None None]"

lemma double_10: "double 10 = Fin 10"
  using double_int [of 10] by simp

lemma double_tenths:
  "double (1 / 10) = Fin (3602879701896397 / 36028797018963968)"
  "double (1 / 5) = Fin (3602879701896397 / 18014398509481984)"
  by code_simp code_simp

text \<open>
  Amounts 10 (completed) and 999 (cancelled) give 10; with 10 and \<^verbatim>\<open>"abc"\<close>, both
  completed, the revenue is 0; the doubles of 0.1 and 0.2 add up to the double
  0.30000000000000004, which is not their sum.
\<close>

theorem revenue_of_completed_witness:
  "totalRevenue_of (Some sample_revenue) = Fin 10
   \<and> totalRevenue_of (Some sample_poisoned) = Fin 0
   \<and> totalRevenue_of (Some sample_tenths) = Fin (1351079888211149 / 4503599627370496)
   \<and> spec_revenue sample_tenths = Fin (10808639105689191 / 36028797018963968)"
proof -
  have w: "\<exists>k. Fin 10 = Fin (rat_of_int k)"
    by (rule exI [of _ 10]) simp
  have 1: "(\<forall>a \<in> set sample_revenue. completed a \<longrightarrow> (\<exists>k. price_number (final_price a) = Fin (of_int k)))
      \<and> sum_list (map (\<lambda>a. \<bar>spec_amount (final_price a)\<bar>) (filter completed sample_revenue)) < 2 ^ 53"
    using w
    by (simp add: sample_revenue_def sample_appointment_def completed_def spec_amount_def double_10)
  have 2: "\<exists>a \<in> set sample_poisoned. completed a \<and> price_number (final_price a) = NaN"
    by (simp add: sample_poisoned_def sample_appointment_def completed_def parseFloat_abc)
  have 3: "spec_revenue sample_revenue = Fin 10"
    by (simp add: spec_revenue_def sample_revenue_def sample_appointment_def completed_def
        spec_amount_def double_10)
  have 4: "\<forall>a \<in> set sample_tenths. completed a \<longrightarrow> (\<exists>q. price_number (final_price a) = Fin q)"
    unfolding sample_tenths_def sample_appointment_def completed_def
    by (simp add: double_tenths del: number.inject) blast
  have 5: "map (\<lambda>a. spec_amount (final_price a)) (filter completed sample_tenths) =
      [3602879701896397 / 36028797018963968, 3602879701896397 / 18014398509481984]"
    by (simp add: sample_tenths_def sample_appointment_def completed_def spec_amount_def
        double_tenths)
  have 6: "or_zero (double_sum [3602879701896397 / 36028797018963968, 3602879701896397 / 18014398509481984]) =
      Fin (1351079888211149 / 4503599627370496)"
    by code_simp
  have 7: "spec_revenue sample_tenths = Fin (10808639105689191 / 36028797018963968)"
    unfolding spec_revenue_def 5 by simp
  show ?thesis
    using revenue_of_completed [of sample_revenue, THEN conjunct2, THEN conjunct1]
      revenue_of_completed [of sample_poisoned, THEN conjunct2, THEN conjunct2, THEN conjunct1]
      revenue_of_completed [of sample_tenths, THEN conjunct1]
      1 2 3 4 7 unfolding 5 6
    by simp
qed

text \<open>
  With a completed record of amount 10 and a completed record of amount \<^verbatim>\<open>"abc"\<close> the
  revenue is 0, where the sum with zero for the second amount is 10.
\<close>

theorem revenue_non_numeric_counterexample:
  "totalRevenue_of (Some sample_poisoned) = Fin 0 \<and> spec_revenue sample_poisoned = Fin 10"
  by (simp add: totalRevenue_of_def spec_revenue_def sample_poisoned_def sample_appointment_def
      completed_def spec_amount_def parseFloat_abc or_zero_def double_10)

subsection \<open>Completion rate\<close>

lemma length_decimal: "1 \<le> length (decimal n)"
  by (subst decimal.simps) simp

lemma digit_char_0: "digit_char 0 = CHR ''0''"
  by (simp add: digit_char_def)

lemma decimal_digit: "n < 10 \<Longrightarrow> decimal n = [digit_char n]"
  by (subst decimal.simps) simp

lemma decimal_split: "10 \<le> n \<Longrightarrow> decimal n = decimal (n div 10) @ decimal (n mod 10)"
  by (subst decimal.simps) (simp add: decimal_digit)

lemma toFixed_1:
  assumes "0 \<le> x"
  shows "toFixed 1 x = decimal (nat \<lfloor>x * 10 + 1 / 2\<rfloor> div 10) @ ''.'' @ decimal (nat \<lfloor>x * 10 + 1 / 2\<rfloor> mod 10)"
proof -
  define n where "n = nat \<lfloor>\<bar>x\<bar> * 10 ^ 1 + 1 / 2\<rfloor>"
  define A where "A = decimal (n div 10)"
  define B where "B = decimal (n mod 10)"
  have n: "nat \<lfloor>x * 10 + 1 / 2\<rfloor> = n"
    using assms by (simp add: n_def)
  have B: "length B = 1"
    by (simp add: B_def decimal_digit)
  have A: "1 \<le> length A"
    using length_decimal [of "n div 10"] unfolding A_def .
  have z: "replicate (1 + 1 - length (decimal n)) (CHR ''0'') @ decimal n = A @ B"
  proof (cases "n < 10")
    case True
    then have "decimal n = B" "A = ''0''"
      by (simp_all add: A_def B_def decimal_digit digit_char_0)
    then show ?thesis using B by simp
  next
    case False
    then have "decimal n = A @ B"
      unfolding A_def B_def by (intro decimal_split) simp
    then show ?thesis using A B by simp
  qed
  have t: "take (length (A @ B) - 1) (A @ B) = A" "drop (length (A @ B) - 1) (A @ B) = B"
    using B by simp_all
  have "toFixed 1 x = A @ ''.'' @ B"
    using assms unfolding toFixed_def Let_def n_def [symmetric] z t by simp
  then show ?thesis
    unfolding n A_def B_def .
qed

text \<open>The tenths that \<^verbatim>\<open>toFixed(1)\<close> writes for the rate of \<open>c\<close> completed out of \<open>t\<close>.\<close>

definition rate_tenths :: "nat \<Rightarrow> nat \<Rightarrow> nat" where
  "rate_tenths c t = nat \<lfloor>fl (fl (of_nat c / of_nat t) * 100) * 10 + 1 / 2\<rfloor>"

lemma rate_nonneg: "0 \<le> fl (fl (of_nat c / of_nat t) * 100)"
proof (cases "0 < (of_nat c / of_nat t :: rat)")
  case True
  then have "0 < fl (of_nat c / of_nat t) * 100"
    using fl_pos by simp
  then show ?thesis
    using fl_pos by (simp add: less_imp_le)
next
  case False
  then have z: "(of_nat c / of_nat t :: rat) = 0"
    by (auto simp: not_less divide_le_0_iff)
  show ?thesis
    unfolding z by (simp add: fl_zero)
qed

text \<open>
  The quotient and the product of the rate of a list (fewer than \<open>2^32\<close> elements) lie
  where \<open>fl\<close> is the rounding to a double.
\<close>

lemma double_fl_between:
  assumes "1 / 2 ^ 33 \<le> x" and "x \<le> 200"
  shows "double x = Fin (fl x)"
proof -
  have p: "0 < x"
    using assms(1) by (rule less_le_trans [rotated]) simp
  have "(2::rat) powi (- 1022) \<le> 2 powi (- 33)"
    by (intro power_int_increasing) simp_all
  also have "\<dots> = 1 / 2 ^ 33"
    using power_int_minus_divide [of "2::rat" 33] by simp
  finally have l: "2 powi (- 1022) \<le> \<bar>x\<bar>"
    using assms(1) p by simp
  have "x / 2 ^ 53 \<le> x"
    using p by (simp add: field_simps)
  with fl_error [OF p] have "fl x \<le> 400"
    using assms(2) by linarith
  moreover have "0 < fl x"
    using p by (rule fl_pos)
  moreover have "(400::rat) < 2 ^ 1024"
    by simp
  ultimately have "\<bar>fl x\<bar> < 2 ^ 1024"
    by linarith
  with l show ?thesis
    by (rule double_fl)
qed

lemma rate_doubles:
  assumes "0 < c" and "c \<le> t" and "t < 2 ^ 32"
  shows "double (of_nat c / of_nat t) = Fin (fl (of_nat c / of_nat t))"
    and "double (fl (of_nat c / of_nat t) * 100) = Fin (fl (fl (of_nat c / of_nat t) * 100))"
proof -
  define T :: rat where "T = of_nat t"
  define C :: rat where "C = of_nat c"
  define x where "x = C / T"
  have T: "0 < T" "T < 2 ^ 32"
    using assms by (simp_all add: T_def)
  have C: "1 \<le> C" "C \<le> T"
    using assms by (simp_all add: C_def T_def)
  have "1 / 2 ^ 32 \<le> 1 / T"
    using T by (intro divide_left_mono) simp_all
  also have "1 / T \<le> x"
    unfolding x_def using C T by (intro divide_right_mono) simp_all
  finally have l: "1 / 2 ^ 32 \<le> x" .
  have u: "x \<le> 1"
    using C T by (simp add: x_def)
  have p: "0 < x"
    using l by (rule less_le_trans [rotated]) simp
  have e: "\<bar>fl x - x\<bar> \<le> x / 2 ^ 53"
    using p by (rule fl_error)
  have h: "x / 2 ^ 53 \<le> x / 2"
    using p by (simp add: field_simps)
  have "double x = Fin (fl x)"
    using l u by (intro double_fl_between) simp_all
  then show "double (of_nat c / of_nat t) = Fin (fl (of_nat c / of_nat t))"
    by (simp add: x_def C_def T_def)
  have f: "x / 2 \<le> fl x" "fl x \<le> 2"
    using e h u by linarith+
  have "(1::rat) / 2 ^ 33 = 1 / 2 ^ 32 / 2"
    by simp
  also have "\<dots> \<le> x / 2"
    using l by (intro divide_right_mono) simp_all
  also have "\<dots> \<le> fl x * 100"
    using f(1) p by linarith
  finally have "1 / 2 ^ 33 \<le> fl x * 100" .
  moreover have "fl x * 100 \<le> 200"
    using f(2) by linarith
  ultimately have "double (fl x * 100) = Fin (fl (fl x * 100))"
    by (rule double_fl_between)
  then show "double (fl (of_nat c / of_nat t) * 100) = Fin (fl (fl (of_nat c / of_nat t) * 100))"
    by (simp add: x_def C_def T_def)
qed

text \<open>
  The two roundings move the rate by less than \<open>300 / 2^53\<close>, so the tenths written are
  within a half of \<open>1000 c / t\<close>.
\<close>

lemma rate_bounds:
  assumes t: "0 < t" "t < 2 ^ 32" and c: "c \<le> t"
  shows "2 * t * rate_tenths c t \<le> 2000 * c + t" "2000 * c \<le> 2 * t * rate_tenths c t + t"
proof -
  define T :: rat where "T = of_nat t"
  define C :: rat where "C = of_nat c"
  define x where "x = C / T"
  define y where "y = fl (fl x * 100)"
  define N :: rat where "N = of_nat (rate_tenths c t)"
  define u :: rat where "u = 1 / 2 ^ 53"
  have T: "0 < T" "T < 2 ^ 32"
    using t by (simp_all add: T_def)
  have C: "0 \<le> C" "C \<le> T"
    using c by (simp_all add: C_def T_def)
  have xT: "x * T = C"
    using T by (simp add: x_def)
  have x: "0 \<le> x" "x \<le> 1"
    using T C by (simp_all add: x_def)
  have y0: "0 \<le> y"
    unfolding y_def x_def C_def T_def by (rule rate_nonneg)
  have near: "\<bar>y - 100 * x\<bar> \<le> 300 * u"
  proof (cases "0 < x")
    case False
    with x have "x = 0" by simp
    then show ?thesis by (simp add: y_def fl_zero u_def)
  next
    case True
    have e1: "\<bar>fl x - x\<bar> \<le> u"
    proof -
      have "x / 2 ^ 53 \<le> u"
        using x by (simp add: u_def field_simps)
      with fl_error [OF True] show ?thesis by linarith
    qed
    have p1: "0 < fl x" using True by (rule fl_pos)
    have u1: "u \<le> 1" by (simp add: u_def)
    have b1: "fl x \<le> 2"
      using e1 x u1 by linarith
    have p2: "0 < fl x * 100" using p1 by simp
    have e2: "\<bar>y - fl x * 100\<bar> \<le> 200 * u"
    proof -
      have "fl x * 100 / 2 ^ 53 \<le> 200 * u"
        using b1 by (simp add: u_def field_simps)
      with fl_error [OF p2] show ?thesis unfolding y_def by linarith
    qed
    from e1 e2 show ?thesis by linarith
  qed
  have fl1: "of_int \<lfloor>y * 10 + 1 / 2\<rfloor> \<le> y * 10 + 1 / 2" "y * 10 + 1 / 2 < of_int \<lfloor>y * 10 + 1 / 2\<rfloor> + 1"
    by linarith+
  have "0 \<le> \<lfloor>y * 10 + 1 / 2\<rfloor>" using y0 by simp
  then have N: "N = of_int \<lfloor>y * 10 + 1 / 2\<rfloor>"
    by (simp add: N_def rate_tenths_def y_def x_def C_def T_def)
  have small: "6000 * u * T < 1"
    using T by (simp add: u_def)
  have up: "N \<le> 1000 * x + 3000 * u + 1 / 2" and lo: "1000 * x - 3000 * u - 1 / 2 < N"
    using near fl1 unfolding N by linarith+
  have "2 * T * N \<le> 2 * T * (1000 * x + 3000 * u + 1 / 2)"
    using up T by (intro mult_left_mono) simp_all
  also have "\<dots> = 2000 * C + 6000 * u * T + T"
    using xT by (simp add: algebra_simps)
  finally have up': "2 * T * N < 2000 * C + T + 1"
    using small by linarith
  have "2 * T * (1000 * x - 3000 * u - 1 / 2) < 2 * T * N"
    using lo T by (intro mult_strict_left_mono) simp_all
  moreover have "2 * T * (1000 * x - 3000 * u - 1 / 2) = 2000 * C - 6000 * u * T - T"
    using xT by (simp add: algebra_simps)
  ultimately have lo': "2000 * C < 2 * T * N + T + 1"
    using small by linarith
  have "2 * t * rate_tenths c t < 2000 * c + t + 1"
    using up' unfolding T_def C_def N_def
    by (metis (mono_tags, lifting) of_nat_1 of_nat_add of_nat_less_iff of_nat_mult of_nat_numeral)
  moreover have "2000 * c < 2 * t * rate_tenths c t + t + 1"
    using lo' unfolding T_def C_def N_def
    by (metis (mono_tags, lifting) of_nat_1 of_nat_add of_nat_less_iff of_nat_mult of_nat_numeral)
  ultimately show "2 * t * rate_tenths c t \<le> 2000 * c + t" "2000 * c \<le> 2 * t * rate_tenths c t + t"
    by simp_all
qed

lemma rate_nearest:
  assumes t: "0 < t" "t < 2 ^ 32" and c: "c \<le> t"
  shows "\<bar>of_nat (rate_tenths c t) / 10 - (of_nat c / of_nat t * 100 :: rat)\<bar> \<le> 1 / 20"
proof -
  define T :: rat where "T = of_nat t"
  define C :: rat where "C = of_nat c"
  define x where "x = C / T"
  define N :: rat where "N = of_nat (rate_tenths c t)"
  have T: "0 < T"
    using t by (simp add: T_def)
  have j: "2 * T * N \<le> 2000 * C + T" "2000 * C \<le> 2 * T * N + T"
    using rate_bounds [OF assms] unfolding T_def C_def N_def
    by (metis (mono_tags, lifting) of_nat_add of_nat_le_iff of_nat_mult of_nat_numeral)+
  have g: "2 * T * N = 2 * (N * T)"
    by simp
  have a: "\<bar>N * T - 1000 * C\<bar> \<le> T / 2"
    using j unfolding g by linarith
  have "N / 10 - x * 100 = (N * T - 1000 * C) / (10 * T)"
    using T by (simp add: x_def field_simps)
  then have "\<bar>N / 10 - x * 100\<bar> = \<bar>N * T - 1000 * C\<bar> / (10 * T)"
    using T by (simp add: abs_mult)
  also have "\<dots> \<le> (T / 2) / (10 * T)"
    using a T by (intro divide_right_mono) simp_all
  also have "\<dots> = 1 / 20"
    using T by simp
  finally have "\<bar>N / 10 - x * 100\<bar> \<le> 1 / 20" .
  then show ?thesis
    by (simp add: N_def x_def C_def T_def)
qed

text \<open>
  What the specification describes: completed / total * 100 rounded to one decimal place, as
  a number of tenths (the integer nearest to \<open>1000 c / t\<close>, a half going up) and as the
  text of a report. The exact rate is a tie when it lies halfway between two tenths.
\<close>

definition spec_rate_tenths :: "nat \<Rightarrow> nat \<Rightarrow> nat" where
  "spec_rate_tenths c t = (2000 * c + t) div (2 * t)"

definition spec_completionRate :: "nat \<Rightarrow> nat \<Rightarrow> string" where
  "spec_completionRate c t =
     (if t = 0 then ''0''
      else decimal (spec_rate_tenths c t div 10) @ ''.'' @ decimal (spec_rate_tenths c t mod 10))"

definition rate_tie :: "nat \<Rightarrow> nat \<Rightarrow> bool" where
  "rate_tie c t = ((2000 * c + t) mod (2 * t) = 0)"

lemma rate_exact:
  assumes t: "0 < t" "t < 2 ^ 32" and c: "c \<le> t" and n: "\<not> rate_tie c t"
  shows "rate_tenths c t = spec_rate_tenths c t"
proof -
  define N where "N = rate_tenths c t"
  define S where "S = (2000 * c + t) div (2 * t)"
  have b: "2 * t * N \<le> 2000 * c + t" "2000 * c \<le> 2 * t * N + t"
    using rate_bounds [OF t c] unfolding N_def .
  have p: "0 < 2 * t" using t by simp
  have "N * (2 * t) \<le> 2000 * c + t"
    using b(1) by (simp add: mult.commute)
  then have le: "N \<le> S"
    unfolding S_def using p by (simp only: less_eq_div_iff_mult_less_eq)
  have ge: "S \<le> N"
  proof (rule ccontr)
    assume "\<not> S \<le> N"
    then have "N + 1 \<le> S" by simp
    then have "(N + 1) * (2 * t) \<le> 2000 * c + t"
      unfolding S_def using p by (simp only: less_eq_div_iff_mult_less_eq)
    moreover have "2000 * c + t \<le> (N + 1) * (2 * t)"
      using b(2) by (simp add: algebra_simps)
    ultimately have "2000 * c + t = (N + 1) * (2 * t)"
      by linarith
    then have "(2000 * c + t) mod (2 * t) = 0"
      by simp
    with n show False
      by (simp add: rate_tie_def)
  qed
  from le ge show ?thesis
    by (simp add: N_def S_def spec_rate_tenths_def)
qed

lemma completed_le_total: "completedAppointments_of appointments \<le> totalAppointments_of appointments"
  by (simp add: completedAppointments_of_def totalAppointments_of_def split: option.splits)

text \<open>What \<^verbatim>\<open>toFixed(1)\<close> writes for the rate of a report.\<close>

lemma completionRate_tenths:
  "completionRate (reportData_of b appointments) =
     (if totalAppointments_of appointments = 0 then ''0''
      else decimal (rate_tenths (completedAppointments_of appointments)
                      (totalAppointments_of appointments) div 10) @ ''.'' @
           decimal (rate_tenths (completedAppointments_of appointments)
                      (totalAppointments_of appointments) mod 10))"
proof (cases "totalAppointments_of appointments = 0")
  case True
  then show ?thesis
    by (simp add: completionRate_def reportData_of_def)
next
  case False
  let ?c = "completedAppointments_of appointments" and ?t = "totalAppointments_of appointments"
  from False have t: "0 < ?t" by simp
  have "(0::rat) \<le> fl (fl (of_nat ?c / of_nat ?t) * 100)" by (rule rate_nonneg)
  from toFixed_1 [OF this]
  have "toFixed 1 (fl (fl (of_nat ?c / of_nat ?t) * 100)) =
      decimal (rate_tenths ?c ?t div 10) @ ''.'' @ decimal (rate_tenths ?c ?t mod 10)"
    unfolding rate_tenths_def .
  then show ?thesis
    using t by (simp add: completionRate_def reportData_of_def)
qed

text \<open>
  C7. The completion rate written into a report is \<^verbatim>\<open>"0"\<close> when the business has no
  appointment. Otherwise it is completed / total * 100 as doubles compute it (the quotient
  rounded, then the product rounded), written with one digit after the point. For fewer
  than \<open>2^32\<close> appointments (the bound of an array) its value is off the exact rate by
  at most 0.05, and it is the exact rate rounded to one decimal place unless the exact rate
  is a tie; at a tie the double can lie below the exact rate, and the digit written is then
  the lower one. Three completed appointments out of four give \<^verbatim>\<open>"75.0"\<close>.
\<close>

theorem completion_rate_rendered:
  "html_completionRate (email_html (report_email tz (reportData_of b appointments) startDate)) =
     completionRate (reportData_of b appointments)
   \<and> completionRate (reportData_of b appointments) =
       (if totalAppointments_of appointments = 0 then ''0''
        else decimal (rate_tenths (completedAppointments_of appointments)
                        (totalAppointments_of appointments) div 10) @ ''.'' @
             decimal (rate_tenths (completedAppointments_of appointments)
                        (totalAppointments_of appointments) mod 10))
   \<and> (0 < totalAppointments_of appointments \<and> totalAppointments_of appointments < 2 ^ 32 \<longrightarrow>
        \<bar>of_nat (rate_tenths (completedAppointments_of appointments)
                   (totalAppointments_of appointments)) / 10
          - (of_nat (completedAppointments_of appointments)
              / of_nat (totalAppointments_of appointments) * 100 :: rat)\<bar> \<le> 1 / 20)
   \<and> (totalAppointments_of appointments < 2 ^ 32
        \<and> \<not> rate_tie (completedAppointments_of appointments) (totalAppointments_of appointments) \<longrightarrow>
        completionRate (reportData_of b appointments) =
          spec_completionRate (completedAppointments_of appointments)
            (totalAppointments_of appointments))"
proof (intro conjI impI)
  show "html_completionRate (email_html (report_email tz (reportData_of b appointments) startDate)) =
     completionRate (reportData_of b appointments)"
    by (simp add: report_email_def)
next
  let ?c = "completedAppointments_of appointments" and ?t = "totalAppointments_of appointments"
  show "completionRate (reportData_of b appointments) =
       (if ?t = 0 then ''0''
        else decimal (rate_tenths ?c ?t div 10) @ ''.'' @ decimal (rate_tenths ?c ?t mod 10))"
    by (rule completionRate_tenths)
next
  assume "0 < totalAppointments_of appointments \<and> totalAppointments_of appointments < 2 ^ 32"
  then show "\<bar>of_nat (rate_tenths (completedAppointments_of appointments)
                   (totalAppointments_of appointments)) / 10
          - (of_nat (completedAppointments_of appointments)
              / of_nat (totalAppointments_of appointments) * 100 :: rat)\<bar> \<le> 1 / 20"
    using completed_le_total [of appointments] by (intro rate_nearest) simp_all
next
  let ?c = "completedAppointments_of appointments" and ?t = "totalAppointments_of appointments"
  assume a: "?t < 2 ^ 32 \<and> \<not> rate_tie ?c ?t"
  show "completionRate (reportData_of b appointments) = spec_completionRate ?c ?t"
  proof (cases "?t = 0")
    case True
    then show ?thesis
      by (simp add: completionRate_tenths spec_completionRate_def)
  next
    case False
    then have "rate_tenths ?c ?t = spec_rate_tenths ?c ?t"
      using a completed_le_total [of appointments] by (intro rate_exact) simp_all
    then show ?thesis
      using False by (simp add: completionRate_tenths spec_completionRate_def)
  qed
qed

definition sample_rate :: "appointment list" where
  "sample_rate =
     [sample_appointment ''completed'' PriceNull None None,
      sample_appointment ''completed'' PriceNull None None,
      sample_appointment ''pending'' PriceNull None None,
      sample_appointment ''completed'' PriceNull None None]"

definition sample_tie :: "appointment list" where
  "sample_tie =
     replicate 23 (sample_appointment ''completed'' PriceNull None None) @
     replicate 57 (sample_appointment ''pending'' PriceNull None None)"

lemma decimal_samples:
  "decimal 75 = ''75''" "decimal 0 = ''0''" "decimal 28 = ''28''" "decimal 7 = ''7''"
  "decimal 8 = ''8''"
  by (simp_all add: decimal.simps digit_char_def)

lemma sample_tie_counts:
  "completedAppointments_of (Some sample_tie) = 23" "totalAppointments_of (Some sample_tie) = 80"
  by (simp_all add: completedAppointments_of_def totalAppointments_of_def sample_tie_def
      sample_appointment_def)

text \<open>
  Three completed out of four give \<^verbatim>\<open>"75.0"\<close>, as the exact rate rounded does; no
  appointment gives \<^verbatim>\<open>"0"\<close>.
\<close>

theorem completion_rate_rendered_witness:
  "completionRate (reportData_of (sample_business ''Y'' None None) (Some sample_rate)) = ''75.0''
   \<and> spec_completionRate 3 4 = ''75.0''
   \<and> \<bar>of_nat (rate_tenths 3 4) / 10 - (75 :: rat)\<bar> \<le> 1 / 20
   \<and> completionRate (reportData_of (sample_business ''Y'' None None) (Some [])) = ''0''"
proof -
  have c: "completedAppointments_of (Some sample_rate) = 3" "totalAppointments_of (Some sample_rate) = 4"
    "totalAppointments_of (Some []) = 0"
    by (simp_all add: completedAppointments_of_def totalAppointments_of_def sample_rate_def
        sample_appointment_def)
  have r: "rate_tenths 3 4 = 750"
    by code_simp
  have n: "\<not> rate_tie 3 4"
    by (simp add: rate_tie_def)
  have s: "spec_completionRate 3 4 = ''75.0''"
    by (simp add: spec_completionRate_def spec_rate_tenths_def decimal_samples)
  have 1: "completionRate (reportData_of (sample_business ''Y'' None None) (Some sample_rate)) =
      spec_completionRate 3 4"
    using completion_rate_rendered [of "fixed_zone 0" "sample_business ''Y'' None None" "Some sample_rate" None,
        THEN conjunct2, THEN conjunct2, THEN conjunct2] n
    unfolding c by simp
  have 2: "completionRate (reportData_of (sample_business ''Y'' None None) (Some [])) = ''0''"
    using completion_rate_rendered [of "fixed_zone 0" "sample_business ''Y'' None None" "Some []" None,
        THEN conjunct2, THEN conjunct1]
    unfolding c by simp
  have 3: "\<bar>of_nat (rate_tenths 3 4) / 10 - (75 :: rat)\<bar> \<le> 1 / 20"
    using completion_rate_rendered [of "fixed_zone 0" "sample_business ''Y'' None None" "Some sample_rate" None,
        THEN conjunct2, THEN conjunct2, THEN conjunct1]
    unfolding c by simp
  show ?thesis
    using 1 2 3 s by simp
qed

text \<open>
  With 23 completed appointments out of 80 the exact rate is 28.75, which rounds to 28.8.
  The double of 23 / 80 times 100 is 28.749999999999996 (the quotient is rounded down), and
  the report says \<^verbatim>\<open>"28.7"\<close>.
\<close>

theorem completion_rate_tie_counterexample:
  "completedAppointments_of (Some sample_tie) = 23
   \<and> totalAppointments_of (Some sample_tie) = 80
   \<and> completionRate (reportData_of (sample_business ''Y'' None None) (Some sample_tie)) = ''28.7''
   \<and> spec_completionRate 23 80 = ''28.8''"
proof -
  have r: "rate_tenths 23 80 = 287"
    by code_simp
  have "completionRate (reportData_of (sample_business ''Y'' None None) (Some sample_tie)) = ''28.7''"
    unfolding completionRate_tenths sample_tie_counts r by (simp add: decimal_samples)
  moreover have "spec_completionRate 23 80 = ''28.8''"
    by (simp add: spec_completionRate_def spec_rate_tenths_def decimal_samples)
  ultimately show ?thesis
    using sample_tie_counts by simp
qed

subsection \<open>Service counts and ranking\<close>

text \<open>The service names of the records that have one, in the order of the records.\<close>

definition service_names :: "appointment list \<Rightarrow> string list" where
  "service_names xs = map (\<lambda>a. the (services_name a)) (filter (\<lambda>a. truthy (services_name a)) xs)"

text \<open>A list without its repetitions: each element stays where it occurs first.\<close>

fun first_encounters :: "'a list \<Rightarrow> 'a list" where
  "first_encounters [] = []"
| "first_encounters (n # ns) = n # filter (\<lambda>m. m \<noteq> n) (first_encounters ns)"

lemma set_first_encounters [simp]: "set (first_encounters ns) = set ns"
  by (induction ns) auto

lemma distinct_first_encounters [simp]: "distinct (first_encounters ns)"
  by (induction ns) simp_all

lemma first_encounters_snoc:
  "first_encounters (ns @ [n]) = (if n \<in> set ns then first_encounters ns else first_encounters ns @ [n])"
  by (induction ns) auto

lemma service_names_snoc:
  "service_names (xs @ [a]) =
     (if truthy (services_name a) then service_names xs @ [the (services_name a)] else service_names xs)"
  by (simp add: service_names_def)

lemma service_names_nonempty: "n \<in> set (service_names xs) \<Longrightarrow> n \<noteq> []"
  by (auto simp: service_names_def truthy_def split: option.splits)

lemma count_service_names:
  "n \<noteq> [] \<Longrightarrow> count_list (service_names xs) n = length (filter (\<lambda>a. services_name a = Some n) xs)"
  by (induction xs) (auto simp: service_names_def truthy_def split: option.splits)

text \<open>Setting a key of a map whose entries are given by a function of the key.\<close>

lemma update_map_keys:
  assumes "distinct ks"
  shows "AList.update n v (map (\<lambda>k. (k, f k)) ks) =
           map (\<lambda>k. (k, if k = n then v else f k)) (if n \<in> set ks then ks else ks @ [n])"
  using assms by (induction ks) auto

lemma map_of_map_keys:
  "map_of (map (\<lambda>k. (k, f k)) ks) n = (if n \<in> set ks then Some (f n) else None)"
  by (induction ks) auto

text \<open>
  The map of the counts after the loop: one entry for each name, in the order of the
  first encounters, with the number of occurrences of the name.
\<close>

lemma serviceCounts_eq:
  "serviceCounts_of (Some xs) =
     map (\<lambda>n. (n, count_list (service_names xs) n)) (first_encounters (service_names xs))"
proof (induction xs rule: rev_induct)
  case Nil
  show ?case by (simp add: serviceCounts_of_def service_names_def)
next
  case (snoc a xs)
  let ?ns = "service_names xs"
  have step: "serviceCounts_of (Some (xs @ [a])) = count_service (serviceCounts_of (Some xs)) a"
    by (simp add: serviceCounts_of_def)
  show ?case
  proof (cases "truthy (services_name a)")
    case False
    then show ?thesis
      unfolding step snoc.IH
      by (auto simp: count_service_def service_names_snoc truthy_def split: option.splits)
  next
    case True
    then obtain n where n: "services_name a = Some n" "n \<noteq> []"
      by (auto simp: truthy_def split: option.splits)
    have c: "(case Map_get (map (\<lambda>n. (n, count_list ?ns n)) (first_encounters ?ns)) n of
               None \<Rightarrow> 0 | Some c \<Rightarrow> c) = count_list ?ns n"
      by (simp add: Map_get_def map_of_map_keys count_list_0_iff)
    have "count_service (map (\<lambda>n. (n, count_list ?ns n)) (first_encounters ?ns)) a =
        AList.update n (count_list ?ns n + 1) (map (\<lambda>n. (n, count_list ?ns n)) (first_encounters ?ns))"
      using n by (simp add: count_service_def c Map_set_def)
    also have "\<dots> = map (\<lambda>k. (k, if k = n then count_list ?ns n + 1 else count_list ?ns k))
        (if n \<in> set (first_encounters ?ns) then first_encounters ?ns else first_encounters ?ns @ [n])"
      by (rule update_map_keys) simp
    also have "\<dots> = map (\<lambda>k. (k, count_list (?ns @ [n]) k)) (first_encounters (?ns @ [n]))"
      by (simp add: first_encounters_snoc)
    finally show ?thesis
      unfolding step snoc.IH using True n by (simp add: service_names_snoc)
  qed
qed

text \<open>The sort of the entries is the stable sort by descending count.\<close>

lemma insert_by_count_desc:
  "insert_by by_count_desc x ys = insort_key (\<lambda>e. - int (snd e)) x ys"
  by (induction ys) (simp_all add: by_count_desc_def)

lemma Array_sort_by_count_desc:
  "Array_sort by_count_desc xs = sort_key (\<lambda>e. - int (snd e)) xs"
  by (induction xs) (simp_all add: Array_sort_def insert_by_count_desc)

text \<open>The full ranking, of which the report keeps the first five entries.\<close>

definition ranking :: "appointment list \<Rightarrow> (string \<times> nat) list" where
  "ranking xs = Array_sort by_count_desc (serviceCounts_of (Some xs))"

lemma topServices_ranking: "topServices_of (Some xs) = take 5 (ranking xs)"
  by (simp add: topServices_of_def ranking_def)

lemma ranking_eq:
  "ranking xs = sort_key (\<lambda>e. - int (snd e))
     (map (\<lambda>n. (n, count_list (service_names xs) n)) (first_encounters (service_names xs)))"
  by (simp add: ranking_def Array_sort_by_count_desc serviceCounts_eq)

lemma set_ranking:
  "set (ranking xs) = (\<lambda>n. (n, count_list (service_names xs) n)) ` set (service_names xs)"
  by (simp add: ranking_eq)

lemma length_ranking: "length (ranking xs) = card (set (service_names xs))"
proof -
  have "length (ranking xs) = length (first_encounters (service_names xs))"
    by (simp add: ranking_eq)
  also have "\<dots> = card (set (first_encounters (service_names xs)))"
    by (rule distinct_card [symmetric]) simp
  finally show ?thesis by simp
qed

lemma distinct_ranking: "distinct (map fst (ranking xs))"
proof -
  have "distinct (map (\<lambda>n. (n, count_list (service_names xs) n)) (first_encounters (service_names xs)))"
    by (simp add: distinct_map inj_on_def)
  then have "distinct (ranking xs)"
    by (simp add: ranking_eq)
  moreover have "inj_on fst (set (ranking xs))"
    by (auto simp: set_ranking inj_on_def)
  ultimately show ?thesis
    by (simp add: distinct_map)
qed

lemma sorted_ranking: "sorted_wrt (\<lambda>a b. snd b \<le> snd a) (ranking xs)"
proof -
  have "sorted (map (\<lambda>e. - int (snd e)) (ranking xs))"
    unfolding ranking_eq by (rule sorted_sort_key)
  then show ?thesis
    by (simp add: sorted_map)
qed

lemma ties_ranking:
  "map fst (filter (\<lambda>e. snd e = k) (ranking xs)) =
     filter (\<lambda>n. count_list (service_names xs) n = k) (first_encounters (service_names xs))"
proof -
  have "filter (\<lambda>e. snd e = k) (ranking xs) = filter (\<lambda>e. - int (snd e) = - int k) (ranking xs)"
    by simp
  also have "\<dots> = filter (\<lambda>e. - int (snd e) = - int k)
      (map (\<lambda>n. (n, count_list (service_names xs) n)) (first_encounters (service_names xs)))"
    unfolding ranking_eq by (rule sort_key_stable)
  finally show ?thesis
    by (simp add: filter_map comp_def)
qed

lemma sum_insort_key: "sum_list (map g (insort_key f x xs)) = g x + sum_list (map g xs)"
  for g :: "'a \<Rightarrow> nat"
  by (induction xs) simp_all

lemma sum_sort_key: "sum_list (map g (sort_key f xs)) = sum_list (map g xs)"
  for g :: "'a \<Rightarrow> nat"
  by (induction xs) (simp_all add: sum_insort_key)

lemma sum_counts: "sum_list (map (count_list ns) (first_encounters ns)) = length ns"
proof -
  have "sum_list (map (count_list ns) (first_encounters ns)) = sum (count_list ns) (set ns)"
    using sum_list_distinct_conv_sum_set [of "first_encounters ns" "count_list ns"] by simp
  also have "\<dots> = length ns"
    by (rule sum_count_set) simp_all
  finally show ?thesis .
qed

lemma sum_ranking: "sum_list (map snd (ranking xs)) = length (service_names xs)"
  by (simp add: ranking_eq sum_sort_key comp_def sum_counts)

lemma sum_take_le: "sum_list (map g (take k xs)) \<le> sum_list (map g xs)"
  for g :: "'a \<Rightarrow> nat"
proof -
  have "sum_list (map g xs) = sum_list (map g (take k xs)) + sum_list (map g (drop k xs))"
    by (metis append_take_drop_id map_append sum_list.append)
  then show ?thesis by simp
qed

lemma length_service_names:
  "length (service_names xs) = length (filter (\<lambda>a. truthy (services_name a)) xs)"
  by (simp add: service_names_def)

text \<open>
  C10. A record whose joined service name is null or empty is left out of the counts: every
  count in the top services is the number of records that carry that (non-empty) name, the
  counts add up to at most the number of records with a name, and to less than the total
  number of records as soon as one record has none.
\<close>

theorem unnamed_services_not_counted:
  "(\<forall>e \<in> set (topServices_of (Some xs)).
      fst e \<noteq> [] \<and> 0 < snd e \<and>
      snd e = length (filter (\<lambda>a. services_name a = Some (fst e)) xs))
   \<and> sum_list (map snd (topServices_of (Some xs))) \<le> length (filter (\<lambda>a. truthy (services_name a)) xs)
   \<and> ((\<exists>a \<in> set xs. \<not> truthy (services_name a)) \<longrightarrow>
        sum_list (map snd (topServices_of (Some xs))) < totalAppointments_of (Some xs))"
proof (intro conjI ballI impI)
  fix e
  assume "e \<in> set (topServices_of (Some xs))"
  then have "e \<in> set (ranking xs)"
    unfolding topServices_ranking by (rule in_set_takeD)
  then obtain n where n: "n \<in> set (service_names xs)" "e = (n, count_list (service_names xs) n)"
    by (auto simp: set_ranking)
  show "fst e \<noteq> []"
    using n service_names_nonempty by simp
  then show "snd e = length (filter (\<lambda>a. services_name a = Some (fst e)) xs)"
    using n by (simp add: count_service_names)
  have "count_list (service_names xs) n \<noteq> 0"
    using n by (simp add: count_list_0_iff)
  then show "0 < snd e"
    using n by simp
next
  have "sum_list (map snd (topServices_of (Some xs))) \<le> sum_list (map snd (ranking xs))"
    unfolding topServices_ranking by (rule sum_take_le)
  then show le: "sum_list (map snd (topServices_of (Some xs))) \<le>
      length (filter (\<lambda>a. truthy (services_name a)) xs)"
    by (simp add: sum_ranking length_service_names)
  assume "\<exists>a \<in> set xs. \<not> truthy (services_name a)"
  then obtain a where "a \<in> set xs" "\<not> truthy (services_name a)"
    by blast
  then have "length (filter (\<lambda>a. truthy (services_name a)) xs) < length xs"
    by (rule length_filter_less)
  with le show "sum_list (map snd (topServices_of (Some xs))) < totalAppointments_of (Some xs)"
    by (simp add: totalAppointments_of_def)
qed

text \<open>
  C5. The top services of a report are at most five entries, one for each of the service
  names with the highest numbers of occurrences (all the names when there are fewer than
  five), each with its number of occurrences, in descending order of that number; a name
  left out occurs no more often than any name listed; and for every number of occurrences
  the names listed with it are the first of the names having it, in the order in which
  the names were first encountered in the records.
\<close>

theorem top_services_ranked:
  "length (topServices_of (Some xs)) = min 5 (card (set (service_names xs)))
   \<and> distinct (map fst (topServices_of (Some xs)))
   \<and> (\<forall>e \<in> set (topServices_of (Some xs)).
        fst e \<in> set (service_names xs) \<and> snd e = count_list (service_names xs) (fst e))
   \<and> sorted_wrt (\<lambda>a b. snd b \<le> snd a) (topServices_of (Some xs))
   \<and> (\<forall>n \<in> set (service_names xs). n \<notin> fst ` set (topServices_of (Some xs)) \<longrightarrow>
        (\<forall>e \<in> set (topServices_of (Some xs)). count_list (service_names xs) n \<le> snd e))
   \<and> (\<forall>k. prefix (map fst (filter (\<lambda>e. snd e = k) (topServices_of (Some xs))))
              (filter (\<lambda>n. count_list (service_names xs) n = k) (first_encounters (service_names xs))))
   \<and> topServices (reportData_of b (Some xs)) = topServices_of (Some xs)"
proof (intro conjI ballI impI allI)
  let ?ns = "service_names xs" and ?rs = "ranking xs"
  have split: "?rs = take 5 ?rs @ drop 5 ?rs" by simp
  show "length (topServices_of (Some xs)) = min 5 (card (set ?ns))"
    by (simp add: topServices_ranking length_ranking min.commute)
  show "distinct (map fst (topServices_of (Some xs)))"
    using distinct_ranking [of xs] by (simp add: topServices_ranking take_map [symmetric])
  show "sorted_wrt (\<lambda>a b. snd b \<le> snd a) (topServices_of (Some xs))"
    unfolding topServices_ranking using sorted_ranking by (rule sorted_wrt_take)
  show "topServices (reportData_of b (Some xs)) = topServices_of (Some xs)"
    by (simp add: reportData_of_def)
  show "fst e \<in> set ?ns" "snd e = count_list ?ns (fst e)" if "e \<in> set (topServices_of (Some xs))" for e
  proof -
    from that have "e \<in> set ?rs"
      unfolding topServices_ranking by (rule in_set_takeD)
    then show "fst e \<in> set ?ns" "snd e = count_list ?ns (fst e)"
      by (auto simp: set_ranking)
  qed
  show "count_list ?ns n \<le> snd e"
    if n: "n \<in> set ?ns" "n \<notin> fst ` set (topServices_of (Some xs))"
      and e: "e \<in> set (topServices_of (Some xs))" for n e
  proof -
    have "(n, count_list ?ns n) \<in> set ?rs"
      using n(1) by (simp add: set_ranking)
    then have "(n, count_list ?ns n) \<in> set (take 5 ?rs) \<union> set (drop 5 ?rs)"
      by (metis split set_append)
    moreover have "(n, count_list ?ns n) \<notin> set (take 5 ?rs)"
      using n(2) by (force simp: topServices_ranking)
    ultimately have d: "(n, count_list ?ns n) \<in> set (drop 5 ?rs)"
      by simp
    have "sorted_wrt (\<lambda>a b. snd b \<le> snd a) (take 5 ?rs @ drop 5 ?rs)"
      using sorted_ranking [of xs] by simp
    then have "\<forall>x \<in> set (take 5 ?rs). \<forall>y \<in> set (drop 5 ?rs). snd y \<le> snd x"
      unfolding sorted_wrt_append by blast
    with d e show ?thesis
      by (force simp: topServices_ranking)
  qed
  show "prefix (map fst (filter (\<lambda>e. snd e = k) (topServices_of (Some xs))))
      (filter (\<lambda>n. count_list ?ns n = k) (first_encounters ?ns))" for k
  proof -
    have "filter (\<lambda>e. snd e = k) ?rs =
        filter (\<lambda>e. snd e = k) (take 5 ?rs) @ filter (\<lambda>e. snd e = k) (drop 5 ?rs)"
      by (metis split filter_append)
    then have "map fst (filter (\<lambda>e. snd e = k) ?rs) =
        map fst (filter (\<lambda>e. snd e = k) (take 5 ?rs)) @ map fst (filter (\<lambda>e. snd e = k) (drop 5 ?rs))"
      by simp
    then show ?thesis
      unfolding topServices_ranking ties_ranking [symmetric] by (rule prefixI)
  qed
qed

text \<open>
  Sample records with the counts A: 3, B: 5, C: 5, D: 1, B met before C, and two records
  without a service name.
\<close>

definition sample_services :: "appointment list" where
  "sample_services =
     map (\<lambda>n. sample_appointment ''completed'' PriceNull None n)
       [Some ''A'', Some ''B'', Some ''C'', None, Some ''D'', Some ''B'', Some ''C'', Some ''A'', Some ''B'',
        Some ''C'', Some [], Some ''B'', Some ''C'', Some ''B'', Some ''C'', Some ''A'']"

lemma sample_services_top:
  "topServices_of (Some sample_services) = [(''B'', 5), (''C'', 5), (''A'', 3), (''D'', 1)]"
  by code_simp

lemma sample_services_total: "totalAppointments_of (Some sample_services) = 16"
  by (simp add: totalAppointments_of_def sample_services_def)

theorem top_services_ranked_witness:
  "topServices_of (Some sample_services) = [(''B'', 5), (''C'', 5), (''A'', 3), (''D'', 1)]
   \<and> count_list (service_names sample_services) ''B'' = 5
   \<and> count_list (service_names sample_services) ''C'' = 5"
proof -
  note t = top_services_ranked [of sample_services, THEN conjunct2, THEN conjunct2, THEN conjunct1,
      unfolded sample_services_top]
  from t [rule_format, of "(''B'', 5)"] t [rule_format, of "(''C'', 5)"] show ?thesis
    by (simp add: sample_services_top)
qed

theorem unnamed_services_not_counted_witness:
  "sum_list (map snd (topServices_of (Some sample_services))) = 14
   \<and> totalAppointments_of (Some sample_services) = 16
   \<and> length (filter (\<lambda>a. services_name a = Some ''D'') sample_services) = 1"
proof -
  note t = unnamed_services_not_counted [of sample_services, THEN conjunct1, unfolded sample_services_top]
  from t [rule_format, of "(''D'', 1)"] show ?thesis
    by (simp add: sample_services_top sample_services_total)
qed

subsection \<open>The calendar\<close>

lemma DaysInYear_le: "DaysInYear y \<le> 366"
  by (simp add: DaysInYear_def)

lemma DayFromYear_1970: "DayFromYear 1970 = 0"
  by (simp add: DayFromYear_def)

lemma DayFromYear_up:
  assumes "y \<le> z"
  shows "DayFromYear y + 365 * (z - y) \<le> DayFromYear z \<and> DayFromYear z \<le> DayFromYear y + 366 * (z - y)"
  using assms
proof (induction z rule: int_ge_induct)
  case base
  show ?case by simp
next
  case (step i)
  have s: "DayFromYear (i + 1) = DayFromYear i + DaysInYear i"
    by (rule DayFromYear_step)
  show ?case
    unfolding s using step.IH DaysInYear_pos [of i] DaysInYear_le [of i]
    by (simp add: algebra_simps)
qed

lemma DayFromYear_mono: "y \<le> z \<Longrightarrow> DayFromYear y \<le> DayFromYear z"
  using DayFromYear_up [of y z] by simp

lemma DayFromYear_strict: "y < z \<Longrightarrow> DayFromYear y < DayFromYear z"
  using DayFromYear_up [of y z] by simp

lemma year_search_bounds:
  assumes "DayFromYear y \<le> d"
  shows "DayFromYear (year_search d y) \<le> d \<and> d < DayFromYear (year_search d y + 1)"
  using assms
proof (induction d y rule: year_search.induct)
  case (1 d y)
  show ?case
  proof (cases "DayFromYear (y + 1) \<le> d")
    case True
    then show ?thesis
      using "1.IH" by (subst (1 2) year_search.simps) simp
  next
    case False
    then show ?thesis
      using "1.prems" by (subst (1 2) year_search.simps) simp
  qed
qed

lemma year_estimate: "DayFromYear (1970 + (if 0 \<le> d then d div 366 else d div 365)) \<le> d"
proof (cases "0 \<le> d")
  case True
  have "0 \<le> d div 366" using True by simp
  then have "DayFromYear (1970 + d div 366) \<le> 366 * (d div 366)"
    using DayFromYear_up [of 1970 "1970 + d div 366"] by (simp add: DayFromYear_1970)
  also have "\<dots> \<le> d" by simp
  finally show ?thesis using True by simp
next
  case False
  then have "d div 365 \<le> 0" by (simp add: div_nonpos_pos_le0)
  then have "DayFromYear (1970 + d div 365) \<le> 365 * (d div 365)"
    using DayFromYear_up [of "1970 + d div 365" 1970] by (simp add: DayFromYear_1970)
  also have "\<dots> \<le> d" by simp
  finally show ?thesis using False by simp
qed

text \<open>The year of a day is the one year that starts on or before it and ends after it.\<close>

lemma YearFromDay_bounds:
  "DayFromYear (YearFromDay d) \<le> d \<and> d < DayFromYear (YearFromDay d + 1)"
  unfolding YearFromDay_def by (rule year_search_bounds) (rule year_estimate)

lemma YearFromDay_eq:
  assumes "DayFromYear y \<le> d" and "d < DayFromYear (y + 1)"
  shows "YearFromDay d = y"
proof (rule ccontr)
  assume n: "YearFromDay d \<noteq> y"
  note b = YearFromDay_bounds [of d]
  show False
  proof (cases "YearFromDay d < y")
    case True
    then have "DayFromYear (YearFromDay d + 1) \<le> DayFromYear y"
      by (intro DayFromYear_mono) simp
    with b assms show False by simp
  next
    case False
    with n have "DayFromYear (y + 1) \<le> DayFromYear (YearFromDay d)"
      by (intro DayFromYear_mono) simp
    with b assms show False by simp
  qed
qed

text \<open>The calendar of the specification: the length of a month and the month before one.\<close>

definition DaysInMonth :: "int \<Rightarrow> int \<Rightarrow> int" where
  "DaysInMonth y m =
     (if m = 1 then 28 + InLeapYear y
      else if m = 3 \<or> m = 5 \<or> m = 8 \<or> m = 10 then 30
      else 31)"

definition prev_month :: "int \<times> int \<Rightarrow> int \<times> int" where
  "prev_month ym = (if snd ym = 0 then (fst ym - 1, 11) else (fst ym, snd ym - 1))"

definition iso_date :: "int \<Rightarrow> int \<Rightarrow> int \<Rightarrow> string" where
  "iso_date y m d = iso_year y @ ''-'' @ pad 2 (nat (m + 1)) @ ''-'' @ pad 2 (nat d)"

text \<open>The number of the day with a given date.\<close>

definition day_number :: "int \<Rightarrow> int \<Rightarrow> int \<Rightarrow> int" where
  "day_number y m d = DayFromYear y + month_start (InLeapYear y) m + d - 1"

lemma month_cases:
  assumes "0 \<le> m" and "m \<le> 11"
  shows "m = 0 \<or> m = 1 \<or> m = 2 \<or> m = 3 \<or> m = 4 \<or> m = 5 \<or> m = 6 \<or> m = 7 \<or> m = 8 \<or> m = 9 \<or>
         m = 10 \<or> m = (11::int)"
  using assms by arith

lemma InLeapYear_cases: "InLeapYear y = 0 \<or> InLeapYear y = 1"
  by (simp add: InLeapYear_def)

lemma DaysInYear_leap: "DaysInYear y = 365 + InLeapYear y"
  by (simp add: InLeapYear_def DaysInYear_def)

lemma MonthFromTime_range: "0 \<le> MonthFromTime t \<and> MonthFromTime t \<le> 11"
  by (simp add: MonthFromTime_def Let_def)

text \<open>Reading back the date of a day.\<close>

lemma date_of_day:
  assumes m: "0 \<le> m" "m \<le> 11" and d: "1 \<le> d" "d \<le> DaysInMonth y m"
    and t: "Day t = day_number y m d"
  shows "YearFromTime t = y \<and> MonthFromTime t = m \<and> DateFromTime t = d"
proof -
  define l where "l = InLeapYear y"
  have l: "l = 0 \<or> l = 1"
    unfolding l_def by (rule InLeapYear_cases)
  have w: "0 \<le> month_start l m + d - 1 \<and> month_start l m + d - 1 < 365 + l"
    using month_cases [OF m] d l unfolding DaysInMonth_def l_def [symmetric]
    by (elim disjE; simp add: month_start_def)
  have y: "YearFromTime t = y"
    unfolding YearFromTime_def
  proof (rule YearFromDay_eq)
    show "DayFromYear y \<le> Day t"
      using w by (simp add: t day_number_def l_def)
    show "Day t < DayFromYear (y + 1)"
      using w by (simp add: t day_number_def l_def DayFromYear_step DaysInYear_leap)
  qed
  have dwy: "DayWithinYear t = month_start l m + d - 1"
    by (simp add: DayWithinYear_def y t day_number_def l_def)
  have mo: "MonthFromTime t = m"
    using month_cases [OF m] d l unfolding DaysInMonth_def l_def [symmetric]
    by (elim disjE; simp add: MonthFromTime_def Let_def dwy y month_start_def l_def [symmetric])
  have "DateFromTime t = d"
    by (simp add: DateFromTime_def dwy y mo l_def)
  with y mo show ?thesis by simp
qed

lemma toISOString_date_of_day:
  assumes "0 \<le> m" "m \<le> 11" "1 \<le> d" "d \<le> DaysInMonth y m" "Day t = day_number y m d"
  shows "toISOString_date (Some t) = Inr (iso_date y m d)"
  using date_of_day [OF assms] by (simp add: toISOString_date_def iso_date_def)

text \<open>The day before the first of a month is the last day of the month before.\<close>

lemma day_before_month:
  assumes m: "0 \<le> m" "m \<le> 11"
  shows "day_number y m 1 - 1 =
           day_number (fst (prev_month (y, m))) (snd (prev_month (y, m)))
             (DaysInMonth (fst (prev_month (y, m))) (snd (prev_month (y, m))))"
proof (cases "m = 0")
  case True
  have "DayFromYear y = DayFromYear (y - 1) + DaysInYear (y - 1)"
    using DayFromYear_step [of "y - 1"] by simp
  then show ?thesis
    using True
    by (simp add: day_number_def prev_month_def month_start_def DaysInMonth_def DaysInYear_leap)
next
  case False
  then show ?thesis
    using month_cases [OF m] InLeapYear_cases [of y]
    by (elim disjE; simp add: day_number_def prev_month_def month_start_def DaysInMonth_def)
qed

lemma prev_month_range:
  assumes "0 \<le> m" "m \<le> 11"
  shows "0 \<le> snd (prev_month (y, m)) \<and> snd (prev_month (y, m)) \<le> 11"
  using assms by (simp add: prev_month_def)

lemma DaysInMonth_range: "28 \<le> DaysInMonth y m \<and> DaysInMonth y m \<le> 31"
  using InLeapYear_cases [of y] by (auto simp: DaysInMonth_def)

text \<open>The month arithmetic of \<^verbatim>\<open>MakeDay\<close> in the two calls of the handler.\<close>

lemma MakeDay_first:
  assumes "0 \<le> m" "m \<le> 11"
  shows "MakeDay y (m - 1) 1 = day_number (fst (prev_month (y, m))) (snd (prev_month (y, m))) 1"
proof (cases "m = 0")
  case True
  then show ?thesis
    by (simp add: MakeDay_def Let_def prev_month_def day_number_def)
next
  case False
  then have "(m - 1) div 12 = 0" "(m - 1) mod 12 = m - 1"
    using assms by simp_all
  then show ?thesis
    using False by (simp add: MakeDay_def Let_def prev_month_def day_number_def)
qed

lemma MakeDay_last:
  assumes "0 \<le> m" "m \<le> 11"
  shows "MakeDay y m 0 = day_number y m 1 - 1"
proof -
  have "m div 12 = 0" "m mod 12 = m"
    using assms by simp_all
  then show ?thesis
    by (simp add: MakeDay_def Let_def day_number_def)
qed

lemma new_Date_fixed_zone:
  assumes "100 \<le> y" and "0 \<le> MakeDay y m d" and "MakeDay y m d \<le> 3000000"
    and "- 1440 \<le> off" and "off \<le> 1440"
  shows "new_Date (fixed_zone off) y m d = Some (MakeDay y m d * msPerDay - off * 60000)"
  using assms
  by (simp add: new_Date_def Let_def UTC_def MakeDate_def fixed_zone_def TimeClip_def msPerDay_def)

lemma Day_west:
  assumes "- 1440 < off" and "off \<le> 0"
  shows "Day (D * msPerDay - off * 60000) = D"
  unfolding Day_def
proof (rule int_div_pos_eq)
  show "D * msPerDay - off * 60000 = msPerDay * D + (- off * 60000)" by simp
  show "0 \<le> - off * 60000" using assms by simp
  show "- off * 60000 < msPerDay" using assms by (simp add: msPerDay_def)
qed

lemma Day_east:
  assumes "0 < off" and "off \<le> 1440"
  shows "Day (D * msPerDay - off * 60000) = D - 1"
  unfolding Day_def
proof (rule int_div_pos_eq)
  show "D * msPerDay - off * 60000 = msPerDay * (D - 1) + (msPerDay - off * 60000)"
    by (simp add: algebra_simps)
  show "0 \<le> msPerDay - off * 60000" using assms by (simp add: msPerDay_def)
  show "msPerDay - off * 60000 < msPerDay" using assms by simp
qed

lemma day_number_bounds:
  assumes "1970 \<le> y" "y \<le> 9999" "0 \<le> m" "m \<le> 11" "1 \<le> d" "d \<le> 31"
  shows "0 \<le> day_number y m d \<and> day_number y m d \<le> 3000000"
proof -
  have "0 \<le> DayFromYear y \<and> DayFromYear y \<le> 366 * (y - 1970)"
    using DayFromYear_up [of 1970 y] assms(1) by (simp add: DayFromYear_1970)
  moreover have "0 \<le> month_start (InLeapYear y) m \<and> month_start (InLeapYear y) m \<le> 335"
    using InLeapYear_cases [of y] by (auto simp: month_start_def)
  ultimately show ?thesis
    using assms by (simp add: day_number_def)
qed

text \<open>
  The two date strings of the window as the code computes them, for a process whose offset
  from UTC is constant (in minutes) and an invocation in the years 1971 to 9999. On UTC or
  west of it they are the first and the last day of the month before the local month of
  the invocation.
\<close>

lemma window_at_or_west_of_utc:
  assumes off: "- 1440 < off" "off \<le> 0"
    and y: "1971 \<le> getFullYear (fixed_zone off) now" "getFullYear (fixed_zone off) now \<le> 9999"
    and p: "prev_month (getFullYear (fixed_zone off) now, getMonth (fixed_zone off) now) = (py, pm)"
  shows "toISOString_date (firstDayLastMonth (fixed_zone off) now) = Inr (iso_date py pm 1)
       \<and> toISOString_date (lastDayLastMonth (fixed_zone off) now) =
           Inr (iso_date py pm (DaysInMonth py pm))"
proof -
  define yy where "yy = getFullYear (fixed_zone off) now"
  define m where "m = getMonth (fixed_zone off) now"
  have y': "1971 \<le> yy" "yy \<le> 9999"
    using y by (simp_all add: yy_def)
  have m: "0 \<le> m" "m \<le> 11"
    using MonthFromTime_range by (simp_all add: m_def getMonth_def)
  have p': "fst (prev_month (yy, m)) = py" "snd (prev_month (yy, m)) = pm"
    using p by (simp_all add: yy_def m_def)
  have pm: "0 \<le> pm" "pm \<le> 11"
    using prev_month_range [OF m, of yy] p' by simp_all
  have py: "1970 \<le> py" "py \<le> 9999"
    using y p' [symmetric] by (simp_all add: prev_month_def yy_def [symmetric] split: if_splits)
  note dim = DaysInMonth_range [of py pm]
  have first: "MakeDay yy (m - 1) 1 = day_number py pm 1"
    using MakeDay_first [OF m, of yy] p' by simp
  have last: "MakeDay yy m 0 = day_number py pm (DaysInMonth py pm)"
    using MakeDay_last [OF m, of yy] day_before_month [OF m, of yy] p' by simp
  have b1: "0 \<le> day_number py pm 1 \<and> day_number py pm 1 \<le> 3000000"
    by (rule day_number_bounds) (use py pm in simp_all)
  have b2: "0 \<le> day_number py pm (DaysInMonth py pm) \<and> day_number py pm (DaysInMonth py pm) \<le> 3000000"
    by (rule day_number_bounds) (use py pm dim in simp_all)
  have "new_Date (fixed_zone off) yy (m - 1) 1 = Some (MakeDay yy (m - 1) 1 * msPerDay - off * 60000)"
    by (rule new_Date_fixed_zone) (use y' b1 off in \<open>simp_all add: first\<close>)
  then have d1: "firstDayLastMonth (fixed_zone off) now =
      Some (day_number py pm 1 * msPerDay - off * 60000)"
    by (simp add: firstDayLastMonth_def yy_def m_def first [unfolded yy_def m_def])
  have "new_Date (fixed_zone off) yy m 0 = Some (MakeDay yy m 0 * msPerDay - off * 60000)"
    by (rule new_Date_fixed_zone) (use y' b2 off in \<open>simp_all add: last\<close>)
  then have d2: "lastDayLastMonth (fixed_zone off) now =
      Some (day_number py pm (DaysInMonth py pm) * msPerDay - off * 60000)"
    by (simp add: lastDayLastMonth_def yy_def m_def last [unfolded yy_def m_def])
  have "toISOString_date (firstDayLastMonth (fixed_zone off) now) = Inr (iso_date py pm 1)"
    unfolding d1 by (rule toISOString_date_of_day) (use pm dim in \<open>simp_all add: Day_west [OF off]\<close>)
  moreover have "toISOString_date (lastDayLastMonth (fixed_zone off) now) =
      Inr (iso_date py pm (DaysInMonth py pm))"
    unfolding d2 by (rule toISOString_date_of_day) (use pm dim in \<open>simp_all add: Day_west [OF off]\<close>)
  ultimately show ?thesis by simp
qed

text \<open>
  East of UTC both fall one day early: the last day of the month before the previous one,
  and the last day but one of the previous month.
\<close>

lemma window_east_general:
  assumes off: "0 < off" "off \<le> 1440"
    and y: "1971 \<le> getFullYear (fixed_zone off) now" "getFullYear (fixed_zone off) now \<le> 9999"
    and p: "prev_month (getFullYear (fixed_zone off) now, getMonth (fixed_zone off) now) = (py, pm)"
    and pp: "prev_month (py, pm) = (ppy, ppm)"
  shows "toISOString_date (firstDayLastMonth (fixed_zone off) now) =
           Inr (iso_date ppy ppm (DaysInMonth ppy ppm))
       \<and> toISOString_date (lastDayLastMonth (fixed_zone off) now) =
           Inr (iso_date py pm (DaysInMonth py pm - 1))"
proof -
  define yy where "yy = getFullYear (fixed_zone off) now"
  define m where "m = getMonth (fixed_zone off) now"
  have y': "1971 \<le> yy" "yy \<le> 9999"
    using y by (simp_all add: yy_def)
  have m: "0 \<le> m" "m \<le> 11"
    using MonthFromTime_range by (simp_all add: m_def getMonth_def)
  have p': "fst (prev_month (yy, m)) = py" "snd (prev_month (yy, m)) = pm"
    using p by (simp_all add: yy_def m_def)
  have pm: "0 \<le> pm" "pm \<le> 11"
    using prev_month_range [OF m, of yy] p' by simp_all
  have py: "1970 \<le> py" "py \<le> 9999"
    using y p' [symmetric] by (simp_all add: prev_month_def yy_def [symmetric] split: if_splits)
  have pp': "fst (prev_month (py, pm)) = ppy" "snd (prev_month (py, pm)) = ppm"
    using pp by simp_all
  have ppm: "0 \<le> ppm" "ppm \<le> 11"
    using prev_month_range [OF pm, of py] pp' by simp_all
  have ppy: "1970 \<le> ppy" "ppy \<le> 9999"
    using y p' [symmetric] pp' [symmetric] m
    by (simp_all add: prev_month_def yy_def [symmetric] split: if_splits)
  note dim = DaysInMonth_range [of py pm] and dimp = DaysInMonth_range [of ppy ppm]
  have first: "MakeDay yy (m - 1) 1 = day_number py pm 1"
    using MakeDay_first [OF m, of yy] p' by simp
  have last: "MakeDay yy m 0 = day_number py pm (DaysInMonth py pm)"
    using MakeDay_last [OF m, of yy] day_before_month [OF m, of yy] p' by simp
  have before: "day_number py pm 1 - 1 = day_number ppy ppm (DaysInMonth ppy ppm)"
    using day_before_month [OF pm, of py] pp' by simp
  have b1: "0 \<le> day_number py pm 1 \<and> day_number py pm 1 \<le> 3000000"
    by (rule day_number_bounds) (use py pm in simp_all)
  have b2: "0 \<le> day_number py pm (DaysInMonth py pm) \<and> day_number py pm (DaysInMonth py pm) \<le> 3000000"
    by (rule day_number_bounds) (use py pm dim in simp_all)
  have "new_Date (fixed_zone off) yy (m - 1) 1 = Some (MakeDay yy (m - 1) 1 * msPerDay - off * 60000)"
    by (rule new_Date_fixed_zone) (use y' b1 off in \<open>simp_all add: first\<close>)
  then have d1: "firstDayLastMonth (fixed_zone off) now =
      Some (day_number py pm 1 * msPerDay - off * 60000)"
    by (simp add: firstDayLastMonth_def yy_def m_def first [unfolded yy_def m_def])
  have "new_Date (fixed_zone off) yy m 0 = Some (MakeDay yy m 0 * msPerDay - off * 60000)"
    by (rule new_Date_fixed_zone) (use y' b2 off in \<open>simp_all add: last\<close>)
  then have d2: "lastDayLastMonth (fixed_zone off) now =
      Some (day_number py pm (DaysInMonth py pm) * msPerDay - off * 60000)"
    by (simp add: lastDayLastMonth_def yy_def m_def last [unfolded yy_def m_def])
  have "toISOString_date (firstDayLastMonth (fixed_zone off) now) =
      Inr (iso_date ppy ppm (DaysInMonth ppy ppm))"
    unfolding d1
    by (rule toISOString_date_of_day) (use ppm dimp in \<open>simp_all add: Day_east [OF off] before\<close>)
  moreover have "toISOString_date (lastDayLastMonth (fixed_zone off) now) =
      Inr (iso_date py pm (DaysInMonth py pm - 1))"
    unfolding d2
    by (rule toISOString_date_of_day)
      (use pm dim in \<open>simp_all add: Day_east [OF off] day_number_def\<close>)
  ultimately show ?thesis by simp
qed

text \<open>So east of UTC the last day of the previous month is never the upper end of the window.\<close>

lemma pad_2_days:
  "pad 2 27 = ''27''" "pad 2 28 = ''28''" "pad 2 29 = ''29''" "pad 2 30 = ''30''" "pad 2 31 = ''31''"
  by (simp_all add: pad_def decimal.simps digit_char_def)

lemma iso_date_last_but_one:
  "iso_date y m (DaysInMonth y m - 1) \<noteq> iso_date y m (DaysInMonth y m)"
proof -
  have "DaysInMonth y m = 28 \<or> DaysInMonth y m = 29 \<or> DaysInMonth y m = 30 \<or> DaysInMonth y m = 31"
    using DaysInMonth_range [of y m] by arith
  then show ?thesis
    by (elim disjE) (simp_all add: iso_date_def pad_2_days)
qed

lemma window_east_not_last_day:
  assumes "0 < off" "off \<le> 1440"
    and "1971 \<le> getFullYear (fixed_zone off) now" "getFullYear (fixed_zone off) now \<le> 9999"
    and "prev_month (getFullYear (fixed_zone off) now, getMonth (fixed_zone off) now) = (py, pm)"
  shows "toISOString_date (lastDayLastMonth (fixed_zone off) now) \<noteq>
           Inr (iso_date py pm (DaysInMonth py pm))"
proof -
  obtain ppy ppm where "prev_month (py, pm) = (ppy, ppm)"
    by (cases "prev_month (py, pm)")
  from window_east_general [OF assms this] show ?thesis
    by (simp add: iso_date_last_but_one)
qed

subsection \<open>The reporting window\<close>

text \<open>The two date strings of each query for appointments, in the order of the queries.\<close>

fun query_windows :: "event list \<Rightarrow> (string \<times> string) list" where
  "query_windows [] = []"
| "query_windows (Select_appointments i gte lte # evs) = (gte, lte) # query_windows evs"
| "query_windows (ev # evs) = query_windows evs"

lemma query_windows_append: "query_windows (xs @ ys) = query_windows xs @ query_windows ys"
  by (induction xs rule: query_windows.induct) simp_all

lemma query_windows_process_business:
  assumes "toISOString_date firstDay = Inr gte" and "toISOString_date lastDay = Inr lte"
  shows "query_windows (fst (process_business env tz firstDay lastDay b w)) = [(gte, lte)]"
  using assms
  by (simp add: process_business_def business_body_def Let_def
      split: prod.splits query_result.splits option.splits)

lemma query_windows_for_businesses:
  assumes "toISOString_date firstDay = Inr gte" and "toISOString_date lastDay = Inr lte"
  shows "query_windows (fst (for_businesses env tz firstDay lastDay bs w)) =
           replicate (length bs) (gte, lte)"
proof (induction bs arbitrary: w)
  case Nil
  show ?case by simp
next
  case (Cons b bs)
  obtain evs w1 where p: "process_business env tz firstDay lastDay b w = (evs, w1)"
    by (cases "process_business env tz firstDay lastDay b w")
  obtain evs' w2 where r: "for_businesses env tz firstDay lastDay bs w1 = (evs', w2)"
    by (cases "for_businesses env tz firstDay lastDay bs w1")
  have "query_windows evs = [(gte, lte)]"
    using query_windows_process_business [OF assms, of env tz b w] p by simp
  moreover have "query_windows evs' = replicate (length bs) (gte, lte)"
    using Cons.IH [of w1] r by simp
  ultimately show ?case
    using p r by (simp add: query_windows_append)
qed

text \<open>
  In a run that has retrieved the businesses, every query for appointments is given the
  UTC dates of the two \<^verbatim>\<open>Date\<close> objects.
\<close>

lemma query_windows_handler:
  assumes "method \<noteq> ''OPTIONS''" and "createClient env = None"
    and "select_businesses env w = (Resolved (Some bs) None, w0)"
    and "toISOString_date (firstDayLastMonth tz now) = Inr gte"
    and "toISOString_date (lastDayLastMonth tz now) = Inr lte"
  shows "query_windows (snd (fst (handler env tz now method w))) = replicate (length bs) (gte, lte)"
proof -
  obtain evs w2 where r: "for_businesses env tz (firstDayLastMonth tz now) (lastDayLastMonth tz now) bs w0 = (evs, w2)"
    by (cases "for_businesses env tz (firstDayLastMonth tz now) (lastDayLastMonth tz now) bs w0")
  have "query_windows evs = replicate (length bs) (gte, lte)"
    using query_windows_for_businesses [OF assms(4,5), of env tz bs w0] r by simp
  then show ?thesis
    using handler_listed [OF assms(1-3), of tz now] r by simp
qed

text \<open>
  The sample instant, 2025-03-15T11:00:00Z, is noon of 2025-03-15 in a process one hour
  east of UTC (month index 2 is March).
\<close>

lemma sample_local_date:
  "getFullYear (fixed_zone 60) sample_now = 2025"
  "getMonth (fixed_zone 60) sample_now = 2"
  "DateFromTime (LocalTime (fixed_zone 60) sample_now) = 15"
  by code_simp+

lemma sample_window_east:
  "toISOString_date (firstDayLastMonth (fixed_zone 60) sample_now) = Inr ''2025-01-31''"
  "toISOString_date (lastDayLastMonth (fixed_zone 60) sample_now) = Inr ''2025-02-27''"
  by code_simp+

text \<open>
  C1. The window is meant to be the first and the last day of the month before the
  invocation date in the local calendar of the process. The two dates are built at local
  midnight and written with \<^verbatim>\<open>toISOString\<close>, which is in UTC: in a process east of UTC
  both fall on the day before. Invoked on 2025-03-15 one hour east of UTC, the run queries
  every business for 2025-01-31 to 2025-02-27, not for 2025-02-01 to 2025-02-28.
\<close>

theorem window_east_of_utc:
  "getFullYear (fixed_zone 60) sample_now = 2025
   \<and> getMonth (fixed_zone 60) sample_now = 2
   \<and> DateFromTime (LocalTime (fixed_zone 60) sample_now) = 15
   \<and> query_windows (snd (fst (handler sample_env (fixed_zone 60) sample_now ''POST'' 0))) =
       [(''2025-01-31'', ''2025-02-27''), (''2025-01-31'', ''2025-02-27''),
        (''2025-01-31'', ''2025-02-27'')]"
proof -
  have m: "''POST'' \<noteq> ''OPTIONS''" by simp
  have c: "createClient sample_env = None" by (simp add: sample_env_def)
  have l: "select_businesses sample_env 0 =
      (Resolved (Some [sample_business ''X'' (Some ''x@example.com'') None,
                       sample_business ''Y'' (Some ''y@example.com'') None,
                       sample_business ''Z'' None None]) None, 1)"
    by (simp add: sample_env_def)
  show ?thesis
    using query_windows_handler [OF m c l sample_window_east]
    by (simp add: sample_local_date numeral_3_eq_3)
qed

text \<open>The same run in a process on UTC queries for 2025-02-01 to 2025-02-28.\<close>

lemma window_utc:
  "query_windows (snd (fst (handler sample_env (fixed_zone 0) sample_now ''POST'' 0))) =
       [(''2025-02-01'', ''2025-02-28''), (''2025-02-01'', ''2025-02-28''),
        (''2025-02-01'', ''2025-02-28'')]"
proof -
  have m: "''POST'' \<noteq> ''OPTIONS''" by simp
  have c: "createClient sample_env = None" by (simp add: sample_env_def)
  have l: "select_businesses sample_env 0 =
      (Resolved (Some [sample_business ''X'' (Some ''x@example.com'') None,
                       sample_business ''Y'' (Some ''y@example.com'') None,
                       sample_business ''Z'' None None]) None, 1)"
    by (simp add: sample_env_def)
  show ?thesis
    using query_windows_handler [OF m c l sample_window_utc]
    by (simp add: numeral_3_eq_3)
qed

end
